theory Spec2Isabelle
  imports Main "HOL-Library.Word" "HOL-Library.Char_ord" "HOL-Library.List_Lexorder"
    "HOL-Library.Sublist"
begin

section \<open>The Snap application store (app-store-snap.cpp)\<close>

subsection \<open>Identities and package information\<close>

text \<open>
  An \<open>AppID\<close> is the triplet of package, application name and version; each field is a
  wrapper around a \<open>std::string\<close>.
\<close>

record AppID =
  package :: string
  appname :: string
  version :: string

datatype ApplicationWildcard = FIRST_LISTED | LAST_LISTED | ONLY_LISTED

text \<open>
  The package information the daemon answers with. \<open>appnames\<close> is a
  \<open>std::set\<close> of application names: a finite set whose iteration order is the order of
  the names (bytewise lexicographic, as \<open>std::string\<close> compares).
\<close>

record PkgInfo =
  appnames :: "string set"
  revision :: string
  interfaces :: "string set"

text \<open>
  The exceptions of this file. The three \<open>std::runtime_error\<close>s thrown by
  \<open>findAppname\<close> are told apart by their message:
  \<^item> \<open>PackageNotFound\<close>: "Packge '...' doesn't have valid info.";
  \<^item> \<open>EmptyPackage\<close>: "No apps in package '...' to find";
  \<^item> \<open>AmbiguousPackage\<close>: "More than a single app in package '...' when requested to find
    only app".
  \<open>DaemonError\<close> is a \<open>std::runtime_error\<close> raised inside the package lookup itself.
\<close>

datatype snap_error = PackageNotFound | EmptyPackage | AmbiguousPackage | DaemonError

text \<open>
  The registry handle. \<open>snapdInfo.pkgInfo\<close> is not part of this file: the daemon is a
  parameter that answers a package name with an exception, with a null pointer (\<open>None\<close>)
  or with the package information. \<open>lookups\<close> records every call of \<open>pkgInfo\<close>, in
  order, so that "no query was made" can be stated.
\<close>

record Registry =
  daemon :: "string \<Rightarrow> snap_error + PkgInfo option"
  lookups :: "string list"

definition pkgInfo :: "Registry \<Rightarrow> string \<Rightarrow> (snap_error + PkgInfo option) \<times> Registry" where
  "pkgInfo registry pkg = (daemon registry pkg, registry\<lparr>lookups := lookups registry @ [pkg]\<rparr>)"

subsection \<open>The application name pattern\<close>

text \<open>
  \<open>appnameRegex\<close> is \<^verbatim>\<open>^[a-zA-Z0-9](?:-?[a-zA-Z0-9])*$\<close>, used with \<open>std::regex_match\<close>,
  which accepts only when the whole string matches.
\<close>

definition alnum :: "char \<Rightarrow> bool" where
  "alnum c \<longleftrightarrow> (CHR ''a'' \<le> c \<and> c \<le> CHR ''z'') \<or> (CHR ''A'' \<le> c \<and> c \<le> CHR ''Z'')
     \<or> (CHR ''0'' \<le> c \<and> c \<le> CHR ''9'')"

text \<open>The repeated group \<^verbatim>\<open>(?:-?[a-zA-Z0-9])*\<close> up to the end of the string.\<close>

fun appname_groups :: "string \<Rightarrow> bool" where
  "appname_groups [] = True"
| "appname_groups [c] = alnum c"
| "appname_groups (c # d # cs) =
     (if c = CHR ''-'' then alnum d \<and> appname_groups cs
      else alnum c \<and> appname_groups (d # cs))"

definition appnameRegex_match :: "string \<Rightarrow> bool" where
  "appnameRegex_match s = (case s of [] \<Rightarrow> False | c # cs \<Rightarrow> alnum c \<and> appname_groups cs)"

text \<open>
  The language of the pattern, written as the regular expression reads: one alphanumeric
  character, then any number of groups, each an optional hyphen and one alphanumeric
  character.
\<close>

inductive appname_tail :: "string \<Rightarrow> bool" where
  tail_end: "appname_tail []"
| tail_plain: "alnum c \<Longrightarrow> appname_tail cs \<Longrightarrow> appname_tail (c # cs)"
| tail_hyphen: "alnum c \<Longrightarrow> appname_tail cs \<Longrightarrow> appname_tail (CHR ''-'' # c # cs)"

definition appname_language :: "string \<Rightarrow> bool" where
  "appname_language s \<longleftrightarrow> (\<exists>c cs. s = c # cs \<and> alnum c \<and> appname_tail cs)"

subsection \<open>The backend's queries\<close>

text \<open>
  \<open>app_impls::Snap::checkPkgInfo\<close> is defined elsewhere; it is a parameter here. Every
  query returns its result (or the exception that leaves it) and the registry after it.
\<close>

definition hasAppId ::
  "(PkgInfo option \<Rightarrow> AppID \<Rightarrow> bool) \<Rightarrow> AppID \<Rightarrow> Registry \<Rightarrow> (snap_error + bool) \<times> Registry" where
  "hasAppId checkPkgInfo appId registry =
     (if package appId = [] \<or> version appId = [] then (Inr False, registry)
      else if \<not> appnameRegex_match (appname appId) then (Inr False, registry)
      else (case pkgInfo registry (package appId) of
              (Inl e, registry') \<Rightarrow> (Inl e, registry')
            | (Inr pkginfo, registry') \<Rightarrow> (Inr (checkPkgInfo pkginfo appId), registry')))"

text \<open>Only \<open>verifyPackage\<close> wraps the lookup in \<open>try\<close>/\<open>catch (std::runtime_error&)\<close>.\<close>

definition verifyPackage :: "string \<Rightarrow> Registry \<Rightarrow> (snap_error + bool) \<times> Registry" where
  "verifyPackage pkg registry =
     (case pkgInfo registry pkg of
        (Inl e, registry') \<Rightarrow> (Inr False, registry')
      | (Inr pkginfo, registry') \<Rightarrow> (Inr (pkginfo \<noteq> None), registry'))"

definition verifyAppname :: "string \<Rightarrow> string \<Rightarrow> Registry \<Rightarrow> (snap_error + bool) \<times> Registry" where
  "verifyAppname pkg app registry =
     (if \<not> appnameRegex_match app then (Inr False, registry)
      else (case pkgInfo registry pkg of
              (Inl e, registry') \<Rightarrow> (Inl e, registry')
            | (Inr None, registry') \<Rightarrow> (Inr False, registry')
            | (Inr (Some info), registry') \<Rightarrow> (Inr (app \<in> appnames info), registry')))"

text \<open>
  \<open>*s.begin()\<close> and \<open>*s.rbegin()\<close> of a non-empty \<open>std::set\<close>: the first and the last
  element of its in-order traversal.
\<close>

definition set_begin :: "string set \<Rightarrow> string" where
  "set_begin s = hd (sorted_list_of_set s)"

definition set_rbegin :: "string set \<Rightarrow> string" where
  "set_rbegin s = last (sorted_list_of_set s)"

definition findAppname ::
  "string \<Rightarrow> ApplicationWildcard \<Rightarrow> Registry \<Rightarrow> (snap_error + string) \<times> Registry" where
  "findAppname pkg wildcard registry =
     (case pkgInfo registry pkg of
        (Inl e, registry') \<Rightarrow> (Inl e, registry')
      | (Inr None, registry') \<Rightarrow> (Inl PackageNotFound, registry')
      | (Inr (Some info), registry') \<Rightarrow>
          (if appnames info = {} then (Inl EmptyPackage, registry')
           else (case wildcard of
                   FIRST_LISTED \<Rightarrow> (Inr (set_begin (appnames info)), registry')
                 | LAST_LISTED \<Rightarrow> (Inr (set_rbegin (appnames info)), registry')
                 | ONLY_LISTED \<Rightarrow>
                     (if card (appnames info) \<noteq> 1 then (Inl AmbiguousPackage, registry')
                      else (Inr (set_begin (appnames info)), registry')))))"

definition findVersion :: "string \<Rightarrow> string \<Rightarrow> Registry \<Rightarrow> (snap_error + string) \<times> Registry" where
  "findVersion pkg app registry =
     (case pkgInfo registry pkg of
        (Inl e, registry') \<Rightarrow> (Inl e, registry')
      | (Inr (Some info), registry') \<Rightarrow> (Inr (revision info), registry')
      | (Inr None, registry') \<Rightarrow> (Inr [], registry'))"


section \<open>GLib and \<open>std::string\<close> primitives\<close>

text \<open>
  \<open>g_build_filename\<close> with the separator \<open>/\<close>, following \<open>g_build_path_va\<close>: empty
  elements are skipped; the separators in front of the first non-empty element and behind
  the last one are kept; between two elements exactly one separator is written; an element
  made of separators only, when it is the only one, is returned as it is.
\<close>

definition is_sep :: "char \<Rightarrow> bool" where
  "is_sep c \<longleftrightarrow> c = CHR ''/''"

definition elem_lead :: "string \<Rightarrow> string" where
  "elem_lead e = takeWhile is_sep e"

definition elem_core :: "string \<Rightarrow> string" where
  "elem_core e = rev (dropWhile is_sep (rev (dropWhile is_sep e)))"

definition elem_trail :: "string \<Rightarrow> string" where
  "elem_trail e = (if elem_core e = [] then e else rev (takeWhile is_sep (rev e)))"

record build_state =
  result :: string
  is_first :: bool
  have_leading :: bool
  single_element :: "string option"
  last_trailing :: "string option"

definition build_step :: "string \<Rightarrow> build_state \<Rightarrow> build_state" where
  "build_step e st =
     (if e = [] then st
      else
        let st1 =
              (if \<not> have_leading st
               then st\<lparr>single_element := (if elem_core e = [] then Some e else single_element st),
                       result := result st @ elem_lead e,
                       have_leading := True\<rparr>
               else st\<lparr>single_element := None\<rparr>);
            st2 = st1\<lparr>last_trailing := Some (elem_trail e)\<rparr>
        in if elem_core e = [] then st2
           else st2\<lparr>result := result st2 @ (if is_first st2 then [] else ''/'') @ elem_core e,
                    is_first := False\<rparr>)"

definition g_build_filename :: "string list \<Rightarrow> string" where
  "g_build_filename elems =
     (let st = fold build_step elems
                 \<lparr>result = [], is_first = True, have_leading = False,
                  single_element = None, last_trailing = None\<rparr>
      in case single_element st of
           Some e \<Rightarrow> e
         | None \<Rightarrow> result st @ (case last_trailing st of Some t \<Rightarrow> t | None \<Rightarrow> []))"

definition g_str_has_suffix :: "string \<Rightarrow> string \<Rightarrow> bool" where
  "g_str_has_suffix str sfx = suffix sfx str"

definition g_str_has_prefix :: "string \<Rightarrow> string \<Rightarrow> bool" where
  "g_str_has_prefix str pfx = prefix pfx str"

text \<open>
  \<open>s.find_last_of(c, pos)\<close>: the last index at or before \<open>pos\<close> that holds \<open>c\<close>;
  \<open>None\<close> is \<open>std::string::npos\<close>, as a position and as a result.
\<close>

definition find_last_of :: "string \<Rightarrow> char \<Rightarrow> nat option \<Rightarrow> nat option" where
  "find_last_of s c pos =
     (let n = (case pos of None \<Rightarrow> length s | Some p \<Rightarrow> min (Suc p) (length s));
          idxs = filter (\<lambda>i. s ! i = c) [0..<n]
      in if idxs = [] then None else Some (last idxs))"

text \<open>\<open>child.find(needle) == std::string::npos\<close>: the needle occurs nowhere in the string.\<close>

definition find_is_npos :: "string \<Rightarrow> string \<Rightarrow> bool" where
  "find_is_npos str needle \<longleftrightarrow> \<not> sublist needle str"

text \<open>
  A GLib key file: the value of a key in a group, if there is one. The typed readers fail
  (\<open>None\<close>) when the key is missing or its value does not parse.
\<close>

type_synonym keyfile = "string \<times> string \<Rightarrow> string option"

definition is_digit :: "char \<Rightarrow> bool" where
  "is_digit c \<longleftrightarrow> CHR ''0'' \<le> c \<and> c \<le> CHR ''9''"

definition digits_value :: "string \<Rightarrow> int" where
  "digits_value ds = fold (\<lambda>c n. 10 * n + (of_char c - 48)) ds 0"

text \<open>A C++ \<open>int\<close> keeps the low 32 bits of a number, read as a signed value.\<close>

definition int32 :: "int \<Rightarrow> int" where
  "int32 n = sint (word_of_int n :: 32 word)"

text \<open>
  \<open>std::atoi\<close> on a string of digits is \<open>(int) strtol(s, NULL, 10)\<close>: \<open>strtol\<close> stops at
  \<open>LONG_MAX\<close>, and the conversion to \<open>int\<close> keeps the low 32 bits.
\<close>

definition atoi :: "string \<Rightarrow> int" where
  "atoi ds = int32 (min (digits_value ds) (2 ^ 63 - 1))"

definition parse_int :: "string \<Rightarrow> int option" where
  "parse_int v =
     (let (neg, ds) = (case v of
                         c # cs \<Rightarrow> if c = CHR ''-'' then (True, cs)
                                   else if c = CHR ''+'' then (False, cs) else (False, v)
                       | [] \<Rightarrow> (False, v));
          n = (if neg then - digits_value ds else digits_value ds)
      in if ds \<noteq> [] \<and> list_all is_digit ds \<and> - (2 ^ 31) \<le> n \<and> n < 2 ^ 31 then Some n else None)"

fun split_on :: "char \<Rightarrow> string \<Rightarrow> string \<Rightarrow> string list" where
  "split_on sep acc [] = (if acc = [] then [] else [acc])"
| "split_on sep acc (c # cs) =
     (if c = sep then acc # split_on sep [] cs else split_on sep (acc @ [c]) cs)"

definition g_key_file_get_string :: "keyfile \<Rightarrow> string \<Rightarrow> string \<Rightarrow> string option" where
  "g_key_file_get_string kf grp key = kf (grp, key)"

definition g_key_file_get_integer :: "keyfile \<Rightarrow> string \<Rightarrow> string \<Rightarrow> int option" where
  "g_key_file_get_integer kf grp key = (case kf (grp, key) of None \<Rightarrow> None | Some v \<Rightarrow> parse_int v)"

definition g_key_file_get_string_list :: "keyfile \<Rightarrow> string \<Rightarrow> string \<Rightarrow> string list option" where
  "g_key_file_get_string_list kf grp key = map_option (split_on CHR '','' []) (kf (grp, key))"

definition g_key_file_has_key :: "keyfile \<Rightarrow> string \<Rightarrow> string \<Rightarrow> bool" where
  "g_key_file_has_key kf grp key \<longleftrightarrow> kf (grp, key) \<noteq> None"

definition g_key_file_set_string :: "keyfile \<Rightarrow> string \<Rightarrow> string \<Rightarrow> string \<Rightarrow> keyfile" where
  "g_key_file_set_string kf grp key v = kf((grp, key) \<mapsto> v)"

text \<open>
  What the programs read from the file system: \<open>g_file_test\<close> with
  \<open>G_FILE_TEST_EXISTS\<close> and with \<open>G_FILE_TEST_IS_DIR\<close>, the names \<open>g_dir_open\<close> and
  \<open>g_dir_read_name\<close> give (\<open>None\<close> when the directory cannot be opened), the key file
  \<open>g_key_file_load_from_file\<close> loads (\<open>None\<close> on error), and the creation time of an
  entry of a directory.
\<close>

record filesys =
  file_exists :: "string \<Rightarrow> bool"
  file_is_dir :: "string \<Rightarrow> bool"
  dir_read :: "string \<Rightarrow> string list option"
  key_file_load :: "string \<Rightarrow> keyfile option"
  time_created :: "string \<Rightarrow> 64 word"


section \<open>The icon finder (application-icon-finder.cpp)\<close>

text \<open>
  A candidate icon directory and its pixel size, a C++ \<open>int\<close>: the sizes the finder computes
  (\<open>atoi\<close>, \<open>size + threshold\<close>) are cut to 32 bits where they are computed.
\<close>

record ThemeSubdirectory =
  path :: string
  size' :: int

definition ICON_TYPES :: "string list" where
  "ICON_TYPES = [''.png'', ''.svg'', ''.xpm'']"

subsection \<open>Explicit paths\<close>

text \<open>
  The loop of \<open>tryMergeFilePaths\<close>. \<open>slashPos - 1\<close> is computed on \<open>size_t\<close>: from
  position 0 it wraps around to \<open>npos\<close>, and \<open>find_last_of\<close> starts again from the end
  of the string, so the loop need not end; not returning is \<open>None\<close>.
\<close>

partial_function (option) tryMerge_loop ::
  "filesys \<Rightarrow> string \<Rightarrow> string \<Rightarrow> nat option \<Rightarrow> nat option \<Rightarrow> string option" where
  "tryMerge_loop fs parent child slashPos prevSlashPos =
     (case slashPos of
        None \<Rightarrow> Some child
      | Some sp \<Rightarrow>
          (case (if find_is_npos child (drop sp parent) then prevSlashPos else None) of
             Some prev \<Rightarrow>
               (if file_exists fs (g_build_filename [take prev parent, child])
                then Some (g_build_filename [take prev parent, child])
                else Some child)
           | None \<Rightarrow>
               tryMerge_loop fs parent child
                 (find_last_of parent CHR ''/'' (if sp = 0 then None else Some (sp - 1)))
                 (Some sp)))"

declare tryMerge_loop.simps [code]

definition tryMergeFilePaths :: "filesys \<Rightarrow> string \<Rightarrow> string \<Rightarrow> string option" where
  "tryMergeFilePaths fs parent child =
     tryMerge_loop fs parent child (find_last_of parent CHR ''/'' None) None"

definition tryFindExplicitFile :: "filesys \<Rightarrow> string \<Rightarrow> string \<Rightarrow> string option" where
  "tryFindExplicitFile fs basePath iconName =
     (if file_exists fs iconName then Some iconName
      else if file_exists fs (g_build_filename [basePath, iconName])
      then Some (g_build_filename [basePath, iconName])
      else (case tryMergeFilePaths fs basePath iconName of
              None \<Rightarrow> None
            | Some mergedIconName \<Rightarrow>
                if mergedIconName \<noteq> iconName then Some mergedIconName else Some []))"

subsection \<open>The search by size\<close>

definition hasImageExtension :: "string \<Rightarrow> bool" where
  "hasImageExtension filename = list_ex (g_str_has_suffix filename) ICON_TYPES"

fun probe_extensions :: "filesys \<Rightarrow> string \<Rightarrow> string \<Rightarrow> string list \<Rightarrow> string" where
  "probe_extensions fs p iconName [] = []"
| "probe_extensions fs p iconName (extension # rest) =
     (if file_exists fs (g_build_filename [p, iconName @ extension])
      then g_build_filename [p, iconName @ extension]
      else probe_extensions fs p iconName rest)"

definition findExistingIcon :: "filesys \<Rightarrow> string \<Rightarrow> string \<Rightarrow> string" where
  "findExistingIcon fs p iconName =
     (if hasImageExtension iconName
      then (if file_exists fs (g_build_filename [p, iconName])
            then g_build_filename [p, iconName] else [])
      else probe_extensions fs p iconName ICON_TYPES)"

text \<open>
  The state of the loop of \<open>find\<close>: the size of the best match so far and its path.
  \<open>probed\<close> is not in the source: it lists the positions of the directories handed to
  \<open>findExistingIcon\<close>, in order, so that "this directory is not probed" can be stated.
\<close>

record find_state =
  best_size :: int
  iconPath :: string
  probed :: "nat list"

text \<open>The body of the loop, for the directory at position \<open>i\<close>.\<close>

definition find_step :: "filesys \<Rightarrow> string \<Rightarrow> nat \<Rightarrow> find_state \<Rightarrow> ThemeSubdirectory \<Rightarrow> find_state" where
  "find_step fs iconName i st p =
     (if size' p > best_size st
      then (let foundIcon = findExistingIcon fs (path p) iconName;
                st' = st\<lparr>probed := probed st @ [i]\<rparr>
            in if foundIcon \<noteq> [] then st'\<lparr>best_size := size' p, iconPath := foundIcon\<rparr>
               else st')
      else st)"

fun find_loop :: "filesys \<Rightarrow> string \<Rightarrow> nat \<Rightarrow> find_state \<Rightarrow> ThemeSubdirectory list \<Rightarrow> find_state" where
  "find_loop fs iconName i st [] = st"
| "find_loop fs iconName i st (p # ps) =
     find_loop fs iconName (Suc i) (find_step fs iconName i st p) ps"

text \<open>The loop as \<open>find\<close> starts it: from size 0, with no icon and nothing probed.\<close>

definition find_by_size :: "filesys \<Rightarrow> ThemeSubdirectory list \<Rightarrow> string \<Rightarrow> find_state" where
  "find_by_size fs searchPaths iconName =
     find_loop fs iconName 0 \<lparr>best_size = 0, iconPath = [], probed = []\<rparr> searchPaths"

record IconFinder =
  searchPaths :: "ThemeSubdirectory list"
  basePath :: string

text \<open>\<open>iconName[0]\<close> of an empty \<open>std::string\<close> is the terminating zero, not a slash.\<close>

definition is_explicit :: "string \<Rightarrow> bool" where
  "is_explicit iconName = (case iconName of [] \<Rightarrow> False | c # cs \<Rightarrow> c = CHR ''/'')"

text \<open>\<open>IconFinder::find\<close>; \<open>None\<close> when the explicit resolution does not return.\<close>

definition find_icon :: "filesys \<Rightarrow> IconFinder \<Rightarrow> string \<Rightarrow> string option" where
  "find_icon fs finder iconName =
     (case (if is_explicit iconName then tryFindExplicitFile fs (basePath finder) iconName
            else Some []) of
        None \<Rightarrow> None
      | Some explicitIconPath \<Rightarrow>
          if explicitIconPath \<noteq> [] then Some explicitIconPath
          else Some (iconPath (find_by_size fs (searchPaths finder) iconName)))"

subsection \<open>Building the search paths\<close>

definition validDirectories :: "filesys \<Rightarrow> string \<Rightarrow> string \<Rightarrow> int \<Rightarrow> ThemeSubdirectory list" where
  "validDirectories fs themePath directory sz =
     (if file_exists fs (g_build_filename [themePath, directory])
      then [\<lparr>path = g_build_filename [themePath, directory], size' = sz\<rparr>] else [])"

definition addSubdirectoryByType :: "filesys \<Rightarrow> keyfile \<Rightarrow> string \<Rightarrow> string \<Rightarrow> ThemeSubdirectory list" where
  "addSubdirectoryByType fs themefile directory themePath =
     (case g_key_file_get_string themefile directory ''Type'' of
        None \<Rightarrow> []
      | Some type \<Rightarrow>
          if type = ''Fixed'' then
            (case g_key_file_get_integer themefile directory ''Size'' of
               None \<Rightarrow> []
             | Some sz \<Rightarrow> validDirectories fs themePath directory sz)
          else if type = ''Scalable'' then
            (case g_key_file_get_integer themefile directory ''MaxSize'' of
               None \<Rightarrow> []
             | Some sz \<Rightarrow> validDirectories fs themePath directory sz)
          else if type = ''Threshold'' then
            (case g_key_file_get_integer themefile directory ''Size'' of
               None \<Rightarrow> []
             | Some sz \<Rightarrow>
                 (let threshold = (case g_key_file_get_integer themefile directory ''Threshold'' of
                                     None \<Rightarrow> 2 | Some t \<Rightarrow> t)
                  in validDirectories fs themePath directory (int32 (sz + threshold))))
          else [])"

fun searchIconPaths :: "filesys \<Rightarrow> keyfile \<Rightarrow> string list \<Rightarrow> string \<Rightarrow> ThemeSubdirectory list" where
  "searchIconPaths fs themefile [] themePath = []"
| "searchIconPaths fs themefile (d # directories) themePath =
     (case g_key_file_get_string themefile d ''Context'' of
        None \<Rightarrow> []
      | Some context \<Rightarrow>
          if context = ''Applications'' then addSubdirectoryByType fs themefile d themePath else [])
     @ searchIconPaths fs themefile directories themePath"

definition themeFileSearchPaths :: "filesys \<Rightarrow> string \<Rightarrow> ThemeSubdirectory list" where
  "themeFileSearchPaths fs themePath =
     (case key_file_load fs (g_build_filename [themePath, ''index.theme'']) of
        None \<Rightarrow> []
      | Some themefile \<Rightarrow>
          (case g_key_file_get_string_list themefile ''Icon Theme'' ''Directories'' of
             None \<Rightarrow> []
           | Some directories \<Rightarrow> searchIconPaths fs themefile directories themePath))"

text \<open>
  \<open>iconSizeDirname\<close> is \<^verbatim>\<open>^(\d+)x\1$\<close>: a number, an \<open>x\<close> and the same number again. The
  result is the number as written, which the source hands to \<open>atoi\<close>.
\<close>

definition iconSizeDirname_match :: "string \<Rightarrow> string option" where
  "iconSizeDirname_match dirstr =
     (let ds = takeWhile is_digit dirstr
      in if ds \<noteq> [] \<and> dirstr = ds @ ''x'' @ ds then Some ds else None)"

fun scan_theme_dir :: "filesys \<Rightarrow> string \<Rightarrow> string list \<Rightarrow> ThemeSubdirectory list" where
  "scan_theme_dir fs themeDir [] = []"
| "scan_theme_dir fs themeDir (dirname # rest) =
     (let fullPath = g_build_filename [themeDir, dirname, ''apps'']
      in if file_is_dir fs fullPath then
           (if dirname = ''scalable'' then [\<lparr>path = fullPath, size' = 256\<rparr>]
            else (case iconSizeDirname_match dirname of
                    Some ds \<Rightarrow> [\<lparr>path = fullPath, size' = atoi ds\<rparr>]
                  | None \<Rightarrow> []))
         else [])
     @ scan_theme_dir fs themeDir rest"

definition themeDirSearchPaths :: "filesys \<Rightarrow> string \<Rightarrow> ThemeSubdirectory list" where
  "themeDirSearchPaths fs themeDir =
     (case dir_read fs themeDir of
        None \<Rightarrow> []
      | Some names \<Rightarrow> scan_theme_dir fs themeDir names)"

definition iconsFromThemePath :: "filesys \<Rightarrow> string \<Rightarrow> ThemeSubdirectory list" where
  "iconsFromThemePath fs themeDir =
     (if file_is_dir fs themeDir then
        \<lparr>path = themeDir, size' = 1\<rparr> #
        (let themeDirs = themeFileSearchPaths fs themeDir
         in if length themeDirs > 0 then themeDirs else themeDirSearchPaths fs themeDir)
      else [])"

text \<open>
  \<open>std::list::sort(comp)\<close> is a stable sort: an element moves in front of another one only
  when \<open>comp\<close> puts it strictly before. Insertion from the right does the same.
\<close>

fun insert_by :: "('a \<Rightarrow> 'a \<Rightarrow> bool) \<Rightarrow> 'a \<Rightarrow> 'a list \<Rightarrow> 'a list" where
  "insert_by cmp x [] = [x]"
| "insert_by cmp x (y # ys) = (if cmp y x then y # insert_by cmp x ys else x # y # ys)"

definition list_sort :: "('a \<Rightarrow> 'a \<Rightarrow> bool) \<Rightarrow> 'a list \<Rightarrow> 'a list" where
  "list_sort cmp xs = foldr (insert_by cmp) xs []"

text \<open>The list \<open>getSearchPaths\<close> has collected when it reaches the sort.\<close>

definition collectedPaths :: "filesys \<Rightarrow> string \<Rightarrow> ThemeSubdirectory list" where
  "collectedPaths fs base =
     iconsFromThemePath fs (g_build_filename [base, ''/icons/hicolor''])
     @ iconsFromThemePath fs (g_build_filename [base, ''/icons/Humanity''])
     @ (if file_is_dir fs (g_build_filename [base, ''/icons''])
        then [\<lparr>path = g_build_filename [base, ''/icons''], size' = 1\<rparr>] else [])
     @ (if file_is_dir fs (g_build_filename [base, ''/pixmaps/''])
        then [\<lparr>path = g_build_filename [base, ''/pixmaps/''], size' = 1\<rparr>] else [])"

definition getSearchPaths :: "filesys \<Rightarrow> string \<Rightarrow> ThemeSubdirectory list" where
  "getSearchPaths fs base = list_sort (\<lambda>lhs rhs. size' lhs > size' rhs) (collectedPaths fs base)"

definition new_IconFinder :: "filesys \<Rightarrow> string \<Rightarrow> IconFinder" where
  "new_IconFinder fs base = \<lparr>searchPaths = getSearchPaths fs base, basePath = base\<rparr>"


section \<open>The desktop file hook (desktop-hook.c)\<close>

record app_state_t =
  app_id :: string
  has_click :: bool
  has_desktop :: bool
  click_created :: "64 word"
  desktop_created :: "64 word"

text \<open>
  \<open>find_app_entry\<close> returns a pointer into the array; here it returns the array, with the
  new entry appended when the name was not there, and the index of the entry.
\<close>

fun entry_index :: "string \<Rightarrow> app_state_t list \<Rightarrow> nat option" where
  "entry_index name [] = None"
| "entry_index name (st # sts) =
     (if app_id st = name then Some 0 else map_option Suc (entry_index name sts))"

definition find_app_entry :: "string \<Rightarrow> app_state_t list \<Rightarrow> app_state_t list \<times> nat" where
  "find_app_entry name app_array =
     (case entry_index name app_array of
        Some i \<Rightarrow> (app_array, i)
      | None \<Rightarrow>
          (app_array @ [\<lparr>app_id = name, has_click = False, has_desktop = False,
                          click_created = 0, desktop_created = 0\<rparr>],
           length app_array))"

definition creation_time :: "filesys \<Rightarrow> string \<Rightarrow> string \<Rightarrow> 64 word" where
  "creation_time fs dir filename = time_created fs (g_build_filename [dir, filename])"

definition add_click_package :: "filesys \<Rightarrow> string \<Rightarrow> string \<Rightarrow> app_state_t list \<Rightarrow> app_state_t list" where
  "add_click_package fs dir name app_array =
     (case find_app_entry name app_array of
        (arr, i) \<Rightarrow> arr[i := (arr ! i)\<lparr>has_click := True,
                                        click_created := creation_time fs dir name\<rparr>])"

text \<open>The text in front of the first occurrence of a needle (\<open>g_strstr_len\<close>, then a zero byte).\<close>

fun cut_at_first :: "string \<Rightarrow> string \<Rightarrow> string" where
  "cut_at_first needle [] = []"
| "cut_at_first needle (c # cs) =
     (if prefix needle (c # cs) then [] else c # cut_at_first needle cs)"

definition add_desktop_file :: "filesys \<Rightarrow> string \<Rightarrow> string \<Rightarrow> app_state_t list \<Rightarrow> app_state_t list" where
  "add_desktop_file fs dir name app_array =
     (if \<not> g_str_has_suffix name ''.desktop'' then app_array
      else if \<not> g_str_has_prefix name ''click-'' then app_array
      else
        (let appid = cut_at_first ''.desktop'' (drop (length ''click-'') name)
         in case find_app_entry appid app_array of
              (arr, i) \<Rightarrow> arr[i := (arr ! i)\<lparr>has_desktop := True,
                                              desktop_created := creation_time fs dir name\<rparr>]))"

definition dir_for_each ::
  "filesys \<Rightarrow> string \<Rightarrow> (filesys \<Rightarrow> string \<Rightarrow> string \<Rightarrow> app_state_t list \<Rightarrow> app_state_t list)
     \<Rightarrow> app_state_t list \<Rightarrow> app_state_t list" where
  "dir_for_each fs dirname func app_array =
     (case dir_read fs dirname of
        None \<Rightarrow> app_array
      | Some filenames \<Rightarrow> fold (\<lambda>filename arr. func fs dirname filename arr) filenames app_array)"

text \<open>
  What the hook does to the file system, in order: \<open>g_unlink\<close>,
  \<open>g_mkdir_with_parents\<close>, and \<open>g_file_set_contents\<close> with the serialised key file.
\<close>

datatype fs_action = Unlink string | MkdirWithParents string | SetContents string keyfile

text \<open>
  The functions of \<open>helpers.h\<close> and the outcomes the hook branches on are parameters:
  \<open>app_id_to_triplet\<close>, \<open>manifest_to_desktop\<close> and \<open>desktop_to_exec\<close> (\<open>None\<close> is
  \<open>NULL\<close>), whether \<open>g_key_file_to_data\<close> succeeds, and whether
  \<open>g_mkdir_with_parents\<close> returns 0.
\<close>

record helpers =
  app_id_to_triplet :: "string \<Rightarrow> bool"
  manifest_to_desktop :: "string \<Rightarrow> string \<Rightarrow> string option"
  desktop_to_exec :: "keyfile \<Rightarrow> string \<Rightarrow> string option"
  to_data_ok :: "keyfile \<Rightarrow> bool"
  mkdir_ok :: "string \<Rightarrow> bool"

definition copy_desktop_file ::
  "filesys \<Rightarrow> helpers \<Rightarrow> string \<Rightarrow> string \<Rightarrow> string \<Rightarrow> string \<Rightarrow> fs_action list" where
  "copy_desktop_file fs hp from to appdir appid =
     (case key_file_load fs from of
        None \<Rightarrow> []
      | Some keyfile \<Rightarrow>
          (case desktop_to_exec hp keyfile from of
             None \<Rightarrow> []
           | Some oldexec \<Rightarrow>
               (let kf1 = (if g_key_file_has_key keyfile ''Desktop Entry'' ''Path''
                           then (case g_key_file_get_string keyfile ''Desktop Entry'' ''Path'' of
                                   Some oldpath \<Rightarrow>
                                     g_key_file_set_string keyfile ''Desktop Entry''
                                       ''XCanonicalOldPath'' oldpath
                                 | None \<Rightarrow> keyfile)
                           else keyfile);
                    kf2 = g_key_file_set_string kf1 ''Desktop Entry'' ''Path''
                            (g_build_filename [appdir, appid]);
                    newexec = ''aa-exec -p '' @ appid @ '' -- '' @ oldexec;
                    kf3 = g_key_file_set_string kf2 ''Desktop Entry'' ''Exec'' newexec
                in if \<not> to_data_ok hp kf3 then [] else [SetContents to kf3])))"

definition build_desktop_file ::
  "filesys \<Rightarrow> helpers \<Rightarrow> app_state_t \<Rightarrow> string \<Rightarrow> string \<Rightarrow> fs_action list" where
  "build_desktop_file fs hp state symlinkdir desktopdir =
     (if \<not> app_id_to_triplet hp (app_id state) then []
      else (case manifest_to_desktop hp symlinkdir (app_id state) of
              None \<Rightarrow> []
            | Some indesktop \<Rightarrow>
                copy_desktop_file fs hp indesktop
                  (g_build_filename [desktopdir, ''click-'' @ app_id state @ ''.desktop''])
                  symlinkdir (app_id state)))"

definition remove_desktop_file :: "app_state_t \<Rightarrow> string \<Rightarrow> fs_action list" where
  "remove_desktop_file state desktopdir =
     [Unlink (g_build_filename [desktopdir, ''click-'' @ app_id state @ ''.desktop''])]"

text \<open>
  The merge loop of \<open>main\<close>, with the flag \<open>desktopdirexists\<close> carried from one entry to
  the next.
\<close>

fun process_merge ::
  "filesys \<Rightarrow> helpers \<Rightarrow> string \<Rightarrow> string \<Rightarrow> bool \<Rightarrow> app_state_t list \<Rightarrow> fs_action list" where
  "process_merge fs hp symlinkdir desktopdir desktopdirexists [] = []"
| "process_merge fs hp symlinkdir desktopdir desktopdirexists (state # rest) =
     (if has_click state \<and> has_desktop state then
        (if click_created state > desktop_created state
         then remove_desktop_file state desktopdir
              @ build_desktop_file fs hp state symlinkdir desktopdir
         else [])
        @ process_merge fs hp symlinkdir desktopdir desktopdirexists rest
      else if has_click state then
        (if \<not> desktopdirexists then
           (if mkdir_ok hp desktopdir
            then MkdirWithParents desktopdir
                 # build_desktop_file fs hp state symlinkdir desktopdir
                 @ process_merge fs hp symlinkdir desktopdir True rest
            else MkdirWithParents desktopdir
                 # process_merge fs hp symlinkdir desktopdir False rest)
         else build_desktop_file fs hp state symlinkdir desktopdir
              @ process_merge fs hp symlinkdir desktopdir True rest)
      else if has_desktop state then
        remove_desktop_file state desktopdir
        @ process_merge fs hp symlinkdir desktopdir desktopdirexists rest
      else process_merge fs hp symlinkdir desktopdir desktopdirexists rest)"

text \<open>
  \<open>g_file_test\<close> with \<open>G_FILE_TEST_EXISTS | G_FILE_TEST_IS_DIR\<close> is true when either test
  is. Both tests of \<open>main\<close> are made on \<open>symlinkdir\<close>, as the source has them.
\<close>

definition test_exists_or_dir :: "filesys \<Rightarrow> string \<Rightarrow> bool" where
  "test_exists_or_dir fs p \<longleftrightarrow> file_exists fs p \<or> file_is_dir fs p"

definition scan_apps :: "filesys \<Rightarrow> string \<Rightarrow> string \<Rightarrow> app_state_t list \<times> bool" where
  "scan_apps fs symlinkdir desktopdir =
     (let arr1 = (if \<not> test_exists_or_dir fs symlinkdir then []
                  else dir_for_each fs symlinkdir add_click_package [])
      in if \<not> test_exists_or_dir fs symlinkdir then (arr1, False)
         else (dir_for_each fs desktopdir add_desktop_file arr1, True))"

text \<open>\<open>main\<close>: \<open>None\<close> is the abort of \<open>g_error\<close> when arguments are given.\<close>

definition main :: "nat \<Rightarrow> filesys \<Rightarrow> helpers \<Rightarrow> string \<Rightarrow> string \<Rightarrow> fs_action list option" where
  "main argc fs hp symlinkdir desktopdir =
     (if argc \<noteq> 1 then None
      else (case scan_apps fs symlinkdir desktopdir of
              (apparray, desktopdirexists) \<Rightarrow>
                Some (process_merge fs hp symlinkdir desktopdir desktopdirexists apparray)))"

section \<open>Notions the claims about the icon finder are stated with\<close>

text \<open>
  The files a directory is asked for: the name as it is when it already ends in one of the
  image extensions, else the name with each extension, in the order they are probed. A
  directory contains a match when one of them exists.
\<close>

definition icon_candidates :: "string \<Rightarrow> string \<Rightarrow> string list" where
  "icon_candidates dir iconName =
     (if \<exists>ext \<in> set [''.png'', ''.svg'', ''.xpm'']. suffix ext iconName
      then [g_build_filename [dir, iconName]]
      else map (\<lambda>ext. g_build_filename [dir, iconName @ ext]) [''.png'', ''.svg'', ''.xpm''])"

definition contains_match :: "filesys \<Rightarrow> string \<Rightarrow> string \<Rightarrow> bool" where
  "contains_match fs dir iconName \<longleftrightarrow> list_ex (file_exists fs) (icon_candidates dir iconName)"

text \<open>The bare file name of a path: what follows its last separator.\<close>

definition bare_filename :: "string \<Rightarrow> string" where
  "bare_filename p = rev (takeWhile (\<lambda>c. c \<noteq> CHR ''/'') (rev p))"

text \<open>
  The loop of \<open>tryMergeFilePaths\<close> followed from one slash position of the parent down to
  the point where the position would wrap around: the path it would test (\<open>Candidate\<close>),
  or no slash left (\<open>Exhausted\<close>), or position 0 passed (\<open>Wrapped\<close>).
\<close>

datatype merge_scan = Candidate string | Exhausted | Wrapped

function scan_from :: "string \<Rightarrow> string \<Rightarrow> nat \<Rightarrow> nat option \<Rightarrow> merge_scan" where
  "scan_from parent child sp prev =
     (case (if find_is_npos child (drop sp parent) then prev else None) of
        Some pv \<Rightarrow> Candidate (g_build_filename [take pv parent, child])
      | None \<Rightarrow>
          (if sp = 0 then Wrapped
           else (case find_last_of parent CHR ''/'' (Some (sp - 1)) of
                   None \<Rightarrow> Exhausted
                 | Some sp' \<Rightarrow> scan_from parent child sp' (Some sp))))"
  by pat_completeness auto
termination
proof (relation "measure (\<lambda>(parent, child, sp, prev). sp)")
  show "wf (measure (\<lambda>(parent :: string, child :: string, sp :: nat, prev :: nat option). sp))"
    by simp
next
  fix parent child :: string and sp sp' :: nat and prev :: "nat option"
  assume "sp \<noteq> 0" and f: "find_last_of parent CHR ''/'' (Some (sp - 1)) = Some sp'"
  define idxs where
    "idxs = filter (\<lambda>i. parent ! i = CHR ''/'') [0..<min (Suc (sp - 1)) (length parent)]"
  from f have ne: "idxs \<noteq> []" and l: "sp' = last idxs"
    by (auto simp: find_last_of_def idxs_def Let_def split: if_splits)
  from ne have "last idxs \<in> set idxs" by (rule last_in_set)
  with l have "sp' < Suc (sp - 1)" by (simp add: idxs_def)
  with \<open>sp \<noteq> 0\<close>
  show "((parent, child, sp', Some sp), (parent, child, sp, prev))
          \<in> measure (\<lambda>(parent, child, sp, prev). sp)"
    by simp
qed

text \<open>
  The path the merge heuristic tests for a base path and an icon name, if it tests one: the
  scan from the last slash of the base path, where no earlier position is known.
\<close>

definition merge_candidate :: "string \<Rightarrow> string \<Rightarrow> string option" where
  "merge_candidate parent child =
     (case find_last_of parent CHR ''/'' None of
        None \<Rightarrow> None
      | Some sp \<Rightarrow>
          (case scan_from parent child sp None of
             Candidate c \<Rightarrow> Some c
           | Exhausted \<Rightarrow> None
           | Wrapped \<Rightarrow> None))"

text \<open>
  The base path begins with a separator and occurs in the icon name: the inputs on which
  the loop of \<open>tryMergeFilePaths\<close> goes round for ever.
\<close>

definition merge_cycles :: "string \<Rightarrow> string \<Rightarrow> bool" where
  "merge_cycles parent child \<longleftrightarrow> prefix ''/'' parent \<and> sublist parent child"

text \<open>
  The three explicit resolutions all fail: the icon is not at the name given, not at the
  name joined under the base path, and not at the path the merge heuristic tests (or that
  path is the name itself).
\<close>

definition explicit_fails :: "filesys \<Rightarrow> string \<Rightarrow> string \<Rightarrow> bool" where
  "explicit_fails fs base iconName \<longleftrightarrow>
     \<not> file_exists fs iconName
     \<and> \<not> file_exists fs (g_build_filename [base, iconName])
     \<and> (case merge_candidate base iconName of
          None \<Rightarrow> True
        | Some c \<Rightarrow> \<not> file_exists fs c \<or> c = iconName)"

section \<open>Concrete inputs\<close>

text \<open>Registries whose daemon gives the same answer for every package name.\<close>

definition reg_two :: Registry where
  "reg_two = \<lparr>daemon = (\<lambda>p. Inr (Some \<lparr>appnames = {''beta'', ''alpha''}, revision = ''7'',
                                            interfaces = {}\<rparr>)), lookups = []\<rparr>"

definition reg_one :: Registry where
  "reg_one = \<lparr>daemon = (\<lambda>p. Inr (Some \<lparr>appnames = {''solo''}, revision = ''7'',
                                            interfaces = {}\<rparr>)), lookups = []\<rparr>"

definition reg_none :: Registry where
  "reg_none = \<lparr>daemon = (\<lambda>p. Inr None), lookups = []\<rparr>"

definition reg_empty :: Registry where
  "reg_empty = \<lparr>daemon = (\<lambda>p. Inr (Some \<lparr>appnames = {}, revision = ''7'',
                                              interfaces = {}\<rparr>)), lookups = []\<rparr>"

definition reg_down :: Registry where
  "reg_down = \<lparr>daemon = (\<lambda>p. Inl DaemonError), lookups = []\<rparr>"

text \<open>A stand-in for \<open>checkPkgInfo\<close>: the package is known, lists the application and has
  the revision asked for.\<close>

definition example_check :: "PkgInfo option \<Rightarrow> AppID \<Rightarrow> bool" where
  "example_check pkginfo appId =
     (case pkginfo of
        None \<Rightarrow> False
      | Some info \<Rightarrow> revision info = version appId \<and> appname appId \<in> appnames info)"

text \<open>
  A session with one installed click package, \<open>com.ex_app_1.0\<close>, whose source desktop file
  sets \<open>Exec\<close> and \<open>Path\<close>, and with no \<open>applications\<close> directory yet.
\<close>

definition src_keyfile :: keyfile where
  "src_keyfile = [(''Desktop Entry'', ''Exec'') \<mapsto> ''run --now'',
                  (''Desktop Entry'', ''Path'') \<mapsto> ''/old/place'']"

definition fs_click_only :: filesys where
  "fs_click_only =
     \<lparr>file_exists = (\<lambda>p. p \<in> set [''/cache/desktop'', ''/cache/desktop/com.ex_app_1.0'',
                                      ''/pkg/app.desktop'']),
      file_is_dir = (\<lambda>p. p = ''/cache/desktop''),
      dir_read = (\<lambda>p. if p = ''/cache/desktop'' then Some [''com.ex_app_1.0''] else None),
      key_file_load = (\<lambda>p. if p = ''/pkg/app.desktop'' then Some src_keyfile else None),
      time_created = (\<lambda>p. 5)\<rparr>"

definition hp_ok :: helpers where
  "hp_ok =
     \<lparr>app_id_to_triplet = (\<lambda>a. True),
      manifest_to_desktop = (\<lambda>d a. Some ''/pkg/app.desktop''),
      desktop_to_exec = (\<lambda>kf f. kf (''Desktop Entry'', ''Exec'')),
      to_data_ok = (\<lambda>kf. True),
      mkdir_ok = (\<lambda>p. True)\<rparr>"

definition built_keyfile :: keyfile where
  "built_keyfile =
     src_keyfile((''Desktop Entry'', ''XCanonicalOldPath'') \<mapsto> ''/old/place'',
                 (''Desktop Entry'', ''Path'') \<mapsto> ''/cache/desktop/com.ex_app_1.0'',
                 (''Desktop Entry'', ''Exec'') \<mapsto> ''aa-exec -p com.ex_app_1.0 -- run --now'')"

text \<open>
  A disk given by its directories, each with the names in it, and its files; a directory
  exists and is a directory, a file exists.
\<close>

definition disk :: "(string \<times> string list) list \<Rightarrow> string list \<Rightarrow> filesys" where
  "disk dirs files =
     \<lparr>file_exists = (\<lambda>p. p \<in> set (map fst dirs) \<or> p \<in> set files),
      file_is_dir = (\<lambda>p. p \<in> set (map fst dirs)),
      dir_read = map_of dirs,
      key_file_load = (\<lambda>p. None),
      time_created = (\<lambda>p. 0)\<rparr>"

text \<open>
  An installation with two themes, each with a \<open>48x48/apps\<close> directory and no index file;
  the icon \<open>foo\<close> is in both of them and in the root icon directory.
\<close>

definition fs_two_themes :: filesys where
  "fs_two_themes =
     disk [(''/'', [''base'']),
           (''/base'', [''icons'']),
           (''/base/icons'', [''hicolor'', ''Humanity'', ''foo.png'']),
           (''/base/icons/hicolor'', [''48x48'']),
           (''/base/icons/hicolor/48x48'', [''apps'']),
           (''/base/icons/hicolor/48x48/apps'', [''foo.png'']),
           (''/base/icons/Humanity'', [''48x48'']),
           (''/base/icons/Humanity/48x48'', [''apps'']),
           (''/base/icons/Humanity/48x48/apps'', [''foo.svg''])]
          [''/base/icons/foo.png'',
           ''/base/icons/hicolor/48x48/apps/foo.png'',
           ''/base/icons/Humanity/48x48/apps/foo.svg'']"

text \<open>A theme whose only size directory is \<open>0x0\<close>, holding the icon \<open>foo\<close>.\<close>

definition fs_zero :: filesys where
  "fs_zero =
     disk [(''/'', [''base'']),
           (''/base'', [''icons'']),
           (''/base/icons'', [''hicolor'']),
           (''/base/icons/hicolor'', [''0x0'']),
           (''/base/icons/hicolor/0x0'', [''apps'']),
           (''/base/icons/hicolor/0x0/apps'', [''foo.png''])]
          [''/base/icons/hicolor/0x0/apps/foo.png'']"

text \<open>An empty installation directory, and one file at an absolute path outside it.\<close>

definition fs_abs :: filesys where
  "fs_abs =
     disk [(''/'', [''abs'', ''base'']),
           (''/abs'', [''icon.png'']),
           (''/base'', [])]
          [''/abs/icon.png'']"

text \<open>
  An installation under \<open>/opt/app\<close> whose root icon directory holds \<open>icon.png\<close> and, in
  its subdirectory \<open>abs\<close>, \<open>other.png\<close>; there is no \<open>/abs\<close>.
\<close>

definition fs_fallthrough :: filesys where
  "fs_fallthrough =
     disk [(''/'', [''opt'']),
           (''/opt'', [''app'']),
           (''/opt/app'', [''icons'']),
           (''/opt/app/icons'', [''abs'', ''icon.png'']),
           (''/opt/app/icons/abs'', [''other.png''])]
          [''/opt/app/icons/icon.png'', ''/opt/app/icons/abs/other.png'']"

section \<open>Properties of the Snap application store\<close>

subsection \<open>The pattern\<close>

lemma groups_iff_tail: "appname_groups cs \<longleftrightarrow> appname_tail cs"
proof
  show "appname_groups cs \<Longrightarrow> appname_tail cs"
    by (induction cs rule: appname_groups.induct)
       (auto intro: appname_tail.intros split: if_splits)
  show "appname_tail cs \<Longrightarrow> appname_groups cs"
  proof (induction rule: appname_tail.induct)
    case tail_end
    show ?case by simp
  next
    case (tail_plain c cs)
    then show ?case by (cases cs) (auto simp: alnum_def)
  next
    case (tail_hyphen c cs)
    then show ?case by simp
  qed
qed

lemma appnameRegex_match_language: "appnameRegex_match s \<longleftrightarrow> appname_language s"
  by (cases s) (auto simp: appnameRegex_match_def appname_language_def groups_iff_tail)

subsection \<open>First and last of an ordered set\<close>

lemma set_begin_Min: "finite s \<Longrightarrow> s \<noteq> {} \<Longrightarrow> set_begin s = Min s"
  by (simp add: set_begin_def sorted_list_of_set_nonempty)

lemma last_sorted_Max: "sorted xs \<Longrightarrow> xs \<noteq> [] \<Longrightarrow> last xs = Max (set xs)"
proof (induction xs)
  case Nil
  then show ?case by simp
next
  case (Cons x xs)
  show ?case
  proof (cases "xs = []")
    case True
    then show ?thesis by simp
  next
    case False
    with Cons have l: "last xs = Max (set xs)" by simp
    have "x \<le> last xs" using Cons.prems(1) False by simp
    with l have "x \<le> Max (set xs)" by simp
    with l show ?thesis using False by (simp add: max_absorb2)
  qed
qed

lemma set_rbegin_Max: "finite s \<Longrightarrow> s \<noteq> {} \<Longrightarrow> set_rbegin s = Max s"
  unfolding set_rbegin_def using last_sorted_Max [of "sorted_list_of_set s"] by simp

subsection \<open>Claims\<close>

text \<open>
  C1. When the package or the version of an AppID is empty, or its application name is not
  in the language of the snap name pattern, \<open>hasAppId\<close> returns false and leaves the
  registry as it was: no lookup is recorded. When all three checks pass, exactly one lookup
  is made, for the AppID's package.
\<close>

theorem hasAppId_fast_reject:
  "(package appId = [] \<or> version appId = [] \<or> \<not> appname_language (appname appId)
      \<longrightarrow> hasAppId checkPkgInfo appId registry = (Inr False, registry))
   \<and> (package appId \<noteq> [] \<and> version appId \<noteq> [] \<and> appname_language (appname appId)
      \<longrightarrow> lookups (snd (hasAppId checkPkgInfo appId registry))
            = lookups registry @ [package appId])"
  by (auto simp: hasAppId_def pkgInfo_def appnameRegex_match_language split: sum.splits)

theorem hasAppId_fast_reject_witness:
  "hasAppId example_check \<lparr>package = [], appname = ''app'', version = ''1''\<rparr> reg_none
     = (Inr False, reg_none)
   \<and> hasAppId example_check \<lparr>package = ''pkg'', appname = ''app'', version = []\<rparr> reg_none
     = (Inr False, reg_none)
   \<and> hasAppId example_check \<lparr>package = ''pkg'', appname = ''my--app'', version = ''1''\<rparr> reg_none
     = (Inr False, reg_none)
   \<and> lookups (snd (hasAppId example_check
        \<lparr>package = ''pkg'', appname = ''my-app'', version = ''1''\<rparr> reg_none)) = [''pkg'']"
proof -
  have bad: "\<not> appname_language ''my--app''"
    by (simp add: appnameRegex_match_language [symmetric] appnameRegex_match_def alnum_def)
  have good: "appname_language ''my-app''"
    by (simp add: appnameRegex_match_language [symmetric] appnameRegex_match_def alnum_def)
  show ?thesis
    using
      hasAppId_fast_reject [of "\<lparr>package = [], appname = ''app'', version = ''1''\<rparr>"
        example_check reg_none]
      hasAppId_fast_reject [of "\<lparr>package = ''pkg'', appname = ''app'', version = []\<rparr>"
        example_check reg_none]
      hasAppId_fast_reject [of "\<lparr>package = ''pkg'', appname = ''my--app'', version = ''1''\<rparr>"
        example_check reg_none]
      hasAppId_fast_reject [of "\<lparr>package = ''pkg'', appname = ''my-app'', version = ''1''\<rparr>"
        example_check reg_none]
      bad good
    by (simp add: reg_none_def)
qed

text \<open>
  C2, as stated, fails: for a package whose set of applications is empty (its size, 0, is
  not 1) \<open>findAppname\<close> with \<open>ONLY_LISTED\<close> fails with \<open>EmptyPackage\<close>, not with
  \<open>AmbiguousPackage\<close>, because the emptiness test comes first.
\<close>

theorem findAppname_only_listed_counterexample:
  "card (appnames \<lparr>appnames = {}, revision = ''7'', interfaces = {}\<rparr>) \<noteq> 1
   \<and> fst (findAppname ''pkg'' ONLY_LISTED reg_empty) = Inl EmptyPackage
   \<and> fst (findAppname ''pkg'' ONLY_LISTED reg_empty) \<noteq> Inl AmbiguousPackage"
  by (simp add: findAppname_def pkgInfo_def reg_empty_def)

text \<open>
  C2, amended. \<open>findAppname\<close> fails with \<open>PackageNotFound\<close> when the package has no
  metadata and with \<open>EmptyPackage\<close> when its set of applications is empty, whatever the
  wildcard; with \<open>ONLY_LISTED\<close> it fails with \<open>AmbiguousPackage\<close> when the set has more
  than one element; when the set has exactly one element every wildcard returns it; and on
  a non-empty set \<open>FIRST_LISTED\<close> and \<open>LAST_LISTED\<close> return the least and the greatest
  name.
\<close>

theorem findAppname_resolution:
  "(daemon registry pkg = Inr None \<longrightarrow> fst (findAppname pkg w registry) = Inl PackageNotFound)
   \<and> (\<forall>info. daemon registry pkg = Inr (Some info) \<and> finite (appnames info) \<longrightarrow>
        (appnames info = {} \<longrightarrow> fst (findAppname pkg w registry) = Inl EmptyPackage)
      \<and> (card (appnames info) > 1 \<longrightarrow>
           fst (findAppname pkg ONLY_LISTED registry) = Inl AmbiguousPackage)
      \<and> (\<forall>a. appnames info = {a} \<longrightarrow> fst (findAppname pkg w registry) = Inr a)
      \<and> (appnames info \<noteq> {} \<longrightarrow>
           fst (findAppname pkg FIRST_LISTED registry) = Inr (Min (appnames info))
         \<and> fst (findAppname pkg LAST_LISTED registry) = Inr (Max (appnames info))))"
proof -
  have one: "set_begin {a} = a" "set_rbegin {a} = a" for a :: string
    by (simp_all add: set_begin_def set_rbegin_def)
  show ?thesis
    by (cases w) (auto simp: findAppname_def pkgInfo_def one set_begin_Min set_rbegin_Max)
qed

theorem findAppname_resolution_witness:
  "fst (findAppname ''pkg'' FIRST_LISTED reg_none) = Inl PackageNotFound
   \<and> fst (findAppname ''pkg'' LAST_LISTED reg_empty) = Inl EmptyPackage
   \<and> fst (findAppname ''pkg'' ONLY_LISTED reg_two) = Inl AmbiguousPackage
   \<and> fst (findAppname ''pkg'' ONLY_LISTED reg_one) = Inr ''solo''
   \<and> fst (findAppname ''pkg'' FIRST_LISTED reg_one) = Inr ''solo''
   \<and> fst (findAppname ''pkg'' LAST_LISTED reg_one) = Inr ''solo''
   \<and> fst (findAppname ''pkg'' FIRST_LISTED reg_two) = Inr ''alpha''
   \<and> fst (findAppname ''pkg'' LAST_LISTED reg_two) = Inr ''beta''"
  using findAppname_resolution [of reg_none "''pkg''" FIRST_LISTED]
    findAppname_resolution [of reg_empty "''pkg''" LAST_LISTED]
    findAppname_resolution [of reg_two "''pkg''" ONLY_LISTED]
    findAppname_resolution [of reg_one "''pkg''" ONLY_LISTED]
    findAppname_resolution [of reg_one "''pkg''" FIRST_LISTED]
    findAppname_resolution [of reg_one "''pkg''" LAST_LISTED]
  by (simp add: reg_none_def reg_empty_def reg_two_def reg_one_def)

text \<open>
  C3 does not hold of the code: with a daemon whose lookup raises, \<open>verifyPackage\<close> catches
  the exception and returns false, but \<open>hasAppId\<close> and \<open>verifyAppname\<close>, called with
  fields that pass their format checks, let it through to the caller.
\<close>

theorem daemon_error_not_collapsed:
  "fst (verifyPackage ''pkg'' reg_down) = Inr False
   \<and> fst (hasAppId example_check \<lparr>package = ''pkg'', appname = ''app'', version = ''1''\<rparr> reg_down)
     = Inl DaemonError
   \<and> fst (verifyAppname ''pkg'' ''app'' reg_down) = Inl DaemonError"
  by (simp add: verifyPackage_def hasAppId_def verifyAppname_def pkgInfo_def reg_down_def
      appnameRegex_match_def alnum_def)

text \<open>
  What \<open>findVersion\<close> returns when the lookup answers: the revision of the package, or
  the empty version when the answer is a null pointer.
\<close>

lemma findVersion_answered:
  "(\<forall>info. daemon registry pkg = Inr (Some info) \<longrightarrow>
       fst (findVersion pkg app registry) = Inr (revision info))
   \<and> (daemon registry pkg = Inr None \<longrightarrow> fst (findVersion pkg app registry) = Inr [])"
  by (simp add: findVersion_def pkgInfo_def)

text \<open>
  C9 does not hold of the code. \<open>findVersion\<close> returns the revision when the package is
  known and the empty version when the lookup answers with a null pointer; but when the
  metadata is unavailable because the lookup raises, \<open>findVersion\<close>, which calls it outside
  any \<open>try\<close>, ends in that error, where \<open>verifyPackage\<close> returns false.
\<close>

theorem findVersion_daemon_error:
  "fst (findVersion ''pkg'' ''app'' reg_one) = Inr ''7''
   \<and> fst (findVersion ''pkg'' ''app'' reg_none) = Inr []
   \<and> fst (findVersion ''pkg'' ''app'' reg_down) = Inl DaemonError
   \<and> fst (verifyPackage ''pkg'' reg_down) = Inr False"
  by (simp add: findVersion_def verifyPackage_def pkgInfo_def reg_one_def reg_none_def reg_down_def)

section \<open>Properties of the desktop file hook\<close>

subsection \<open>What a written desktop file holds\<close>

lemma copy_desktop_file_written:
  assumes "SetContents p kf' \<in> set (copy_desktop_file fs hp from to appdir appid)"
  shows "\<exists>keyfile oldexec.
           key_file_load fs from = Some keyfile \<and> desktop_to_exec hp keyfile from = Some oldexec
         \<and> p = to
         \<and> kf' (''Desktop Entry'', ''Exec'') = Some (''aa-exec -p '' @ appid @ '' -- '' @ oldexec)
         \<and> kf' (''Desktop Entry'', ''Path'') = Some (g_build_filename [appdir, appid])
         \<and> (\<forall>oldpath. keyfile (''Desktop Entry'', ''Path'') = Some oldpath \<longrightarrow>
               kf' (''Desktop Entry'', ''XCanonicalOldPath'') = Some oldpath)"
proof (cases "key_file_load fs from")
  case None
  with assms show ?thesis by (simp add: copy_desktop_file_def)
next
  case (Some keyfile)
  note load = this
  show ?thesis
  proof (cases "desktop_to_exec hp keyfile from")
    case None
    with assms load show ?thesis by (simp add: copy_desktop_file_def)
  next
    case (Some oldexec)
    with assms load have "p = to"
      and "kf' (''Desktop Entry'', ''Exec'') = Some (''aa-exec -p '' @ appid @ '' -- '' @ oldexec)"
      and "kf' (''Desktop Entry'', ''Path'') = Some (g_build_filename [appdir, appid])"
      and "\<forall>oldpath. keyfile (''Desktop Entry'', ''Path'') = Some oldpath \<longrightarrow>
               kf' (''Desktop Entry'', ''XCanonicalOldPath'') = Some oldpath"
      by (auto simp: copy_desktop_file_def Let_def g_key_file_has_key_def
            g_key_file_get_string_def g_key_file_set_string_def split: if_splits)
    with load Some show ?thesis by blast
  qed
qed

lemma build_desktop_file_written:
  assumes "SetContents p kf' \<in> set (build_desktop_file fs hp state symlinkdir desktopdir)"
  shows "\<exists>indesktop keyfile oldexec.
           manifest_to_desktop hp symlinkdir (app_id state) = Some indesktop
         \<and> key_file_load fs indesktop = Some keyfile
         \<and> desktop_to_exec hp keyfile indesktop = Some oldexec
         \<and> p = g_build_filename [desktopdir, ''click-'' @ app_id state @ ''.desktop'']
         \<and> kf' (''Desktop Entry'', ''Exec'')
             = Some (''aa-exec -p '' @ app_id state @ '' -- '' @ oldexec)
         \<and> kf' (''Desktop Entry'', ''Path'') = Some (g_build_filename [symlinkdir, app_id state])
         \<and> (\<forall>oldpath. keyfile (''Desktop Entry'', ''Path'') = Some oldpath \<longrightarrow>
               kf' (''Desktop Entry'', ''XCanonicalOldPath'') = Some oldpath)"
proof -
  show ?thesis
  proof (cases "manifest_to_desktop hp symlinkdir (app_id state)")
    case None
    with assms show ?thesis by (simp add: build_desktop_file_def split: if_splits)
  next
    case (Some indesktop)
    with assms have c: "SetContents p kf' \<in> set (copy_desktop_file fs hp indesktop
                  (g_build_filename [desktopdir, ''click-'' @ app_id state @ ''.desktop''])
                  symlinkdir (app_id state))"
      by (simp add: build_desktop_file_def split: if_splits)
    from copy_desktop_file_written [OF c] Some show ?thesis by blast
  qed
qed

lemma process_merge_written:
  assumes "SetContents p kf' \<in> set (process_merge fs hp symlinkdir desktopdir flag arr)"
  shows "\<exists>state \<in> set arr. has_click state \<and>
           SetContents p kf' \<in> set (build_desktop_file fs hp state symlinkdir desktopdir)"
  using assms
proof (induction arr arbitrary: flag)
  case Nil
  then show ?case by simp
next
  case (Cons state rest)
  then show ?case
    by (auto simp: remove_desktop_file_def split: if_splits)
qed

lemma process_merge_no_mkdir:
  "MkdirWithParents p \<notin> set (process_merge fs hp symlinkdir desktopdir True arr)"
proof (induction arr)
  case Nil
  show ?case by simp
next
  case (Cons state rest)
  have b: "MkdirWithParents p \<notin> set (build_desktop_file fs hp state symlinkdir desktopdir)"
    by (auto simp: build_desktop_file_def copy_desktop_file_def Let_def split: option.splits)
  from Cons b show ?case by (auto simp: remove_desktop_file_def)
qed

lemma scan_apps_flag:
  "scan_apps fs symlinkdir desktopdir = (arr, flag) \<Longrightarrow> flag \<or> arr = []"
  by (auto simp: scan_apps_def Let_def split: if_splits)

lemma main_never_creates_directory:
  "main argc fs hp symlinkdir desktopdir = Some acts \<Longrightarrow> MkdirWithParents p \<notin> set acts"
  by (auto simp: main_def process_merge_no_mkdir split: if_splits prod.splits dest!: scan_apps_flag)


subsection \<open>The rows of the merge that need no directory\<close>

lemma process_merge_click_newer:
  "has_click state \<Longrightarrow> has_desktop state \<Longrightarrow> click_created state > desktop_created state
     \<Longrightarrow> process_merge fs hp symlinkdir desktopdir flag (state # rest)
         = Unlink (g_build_filename [desktopdir, ''click-'' @ app_id state @ ''.desktop''])
           # build_desktop_file fs hp state symlinkdir desktopdir
           @ process_merge fs hp symlinkdir desktopdir flag rest"
  by (simp add: remove_desktop_file_def)

lemma process_merge_synchronized:
  "has_click state \<Longrightarrow> has_desktop state \<Longrightarrow> \<not> click_created state > desktop_created state
     \<Longrightarrow> process_merge fs hp symlinkdir desktopdir flag (state # rest)
         = process_merge fs hp symlinkdir desktopdir flag rest"
  by simp

lemma process_merge_orphan:
  "\<not> has_click state \<Longrightarrow> has_desktop state
     \<Longrightarrow> process_merge fs hp symlinkdir desktopdir flag (state # rest)
         = Unlink (g_build_filename [desktopdir, ''click-'' @ app_id state @ ''.desktop''])
           # process_merge fs hp symlinkdir desktopdir flag rest"
  by (simp add: remove_desktop_file_def)

lemma process_merge_click_only:
  "has_click state \<Longrightarrow> \<not> has_desktop state
     \<Longrightarrow> process_merge fs hp symlinkdir desktopdir True (state # rest)
         = build_desktop_file fs hp state symlinkdir desktopdir
           @ process_merge fs hp symlinkdir desktopdir True rest"
  by simp

subsection \<open>A pass over one click package and no applications directory\<close>

lemma click_only_paths:
  "g_build_filename [''/data/applications'', ''click-com.ex_app_1.0.desktop'']
     = ''/data/applications/click-com.ex_app_1.0.desktop''"
  "g_build_filename [''/cache/desktop'', ''com.ex_app_1.0''] = ''/cache/desktop/com.ex_app_1.0''"
  by code_simp+

lemma click_only_scan:
  "scan_apps fs_click_only ''/cache/desktop'' ''/data/applications''
     = ([\<lparr>app_id = ''com.ex_app_1.0'', has_click = True, has_desktop = False,
          click_created = 5, desktop_created = 0\<rparr>], True)"
  by code_simp

lemma click_only_build:
  "build_desktop_file fs_click_only hp_ok
     \<lparr>app_id = ''com.ex_app_1.0'', has_click = True, has_desktop = False,
      click_created = 5, desktop_created = 0\<rparr> ''/cache/desktop'' ''/data/applications''
   = [SetContents ''/data/applications/click-com.ex_app_1.0.desktop'' built_keyfile]"
  by (simp add: build_desktop_file_def copy_desktop_file_def hp_ok_def
      fs_click_only_def click_only_paths built_keyfile_def src_keyfile_def Let_def
      g_key_file_has_key_def g_key_file_get_string_def g_key_file_set_string_def)

lemma click_only_run:
  "main 1 fs_click_only hp_ok ''/cache/desktop'' ''/data/applications''
     = Some [SetContents ''/data/applications/click-com.ex_app_1.0.desktop'' built_keyfile]"
  by (simp add: main_def click_only_scan click_only_build)

subsection \<open>Claims\<close>

text \<open>
  C7 does not hold of the code. With one click package installed and no applications
  directory, the scan leaves \<open>desktopdirexists\<close> true, because the second test of \<open>main\<close>
  looks at the symlink directory again; the pass then goes straight to writing the desktop
  file and never calls \<open>g_mkdir_with_parents\<close>.
\<close>

theorem main_click_only_skips_mkdir:
  "\<not> test_exists_or_dir fs_click_only ''/data/applications''
   \<and> scan_apps fs_click_only ''/cache/desktop'' ''/data/applications''
       = ([\<lparr>app_id = ''com.ex_app_1.0'', has_click = True, has_desktop = False,
            click_created = 5, desktop_created = 0\<rparr>], True)
   \<and> main 1 fs_click_only hp_ok ''/cache/desktop'' ''/data/applications''
       = Some [SetContents ''/data/applications/click-com.ex_app_1.0.desktop'' built_keyfile]"
proof -
  have absent: "\<not> test_exists_or_dir fs_click_only ''/data/applications''"
    by code_simp
  from absent click_only_scan click_only_run show ?thesis by simp
qed

text \<open>
  C8. Every desktop file a pass writes belongs to an identity whose source desktop file was
  loaded and gave a launch command; in the written key file \<open>Exec\<close> is
  \<open>aa-exec -p <identity> -- <that command>\<close>, \<open>Path\<close> is the identity's entry under the
  package directory, and a \<open>Path\<close> the source file had is kept under
  \<open>XCanonicalOldPath\<close>.
\<close>

theorem generated_desktop_file_shape:
  assumes "main argc fs hp symlinkdir desktopdir = Some acts"
    and "SetContents p kf' \<in> set acts"
  shows "\<exists>appid indesktop keyfile oldexec.
           manifest_to_desktop hp symlinkdir appid = Some indesktop
         \<and> key_file_load fs indesktop = Some keyfile
         \<and> desktop_to_exec hp keyfile indesktop = Some oldexec
         \<and> p = g_build_filename [desktopdir, ''click-'' @ appid @ ''.desktop'']
         \<and> kf' (''Desktop Entry'', ''Exec'') = Some (''aa-exec -p '' @ appid @ '' -- '' @ oldexec)
         \<and> kf' (''Desktop Entry'', ''Path'') = Some (g_build_filename [symlinkdir, appid])
         \<and> (\<forall>oldpath. keyfile (''Desktop Entry'', ''Path'') = Some oldpath \<longrightarrow>
               kf' (''Desktop Entry'', ''XCanonicalOldPath'') = Some oldpath)"
proof -
  from assms obtain arr flag where
    "SetContents p kf' \<in> set (process_merge fs hp symlinkdir desktopdir flag arr)"
    by (auto simp: main_def split: if_splits prod.splits)
  from process_merge_written [OF this] obtain state where
    "SetContents p kf' \<in> set (build_desktop_file fs hp state symlinkdir desktopdir)"
    by blast
  from build_desktop_file_written [OF this] show ?thesis by blast
qed

theorem generated_desktop_file_shape_witness:
  "main 1 fs_click_only hp_ok ''/cache/desktop'' ''/data/applications''
     = Some [SetContents ''/data/applications/click-com.ex_app_1.0.desktop'' built_keyfile]
   \<and> (\<exists>appid oldexec.
         ''/data/applications/click-com.ex_app_1.0.desktop''
           = g_build_filename [''/data/applications'', ''click-'' @ appid @ ''.desktop'']
       \<and> built_keyfile (''Desktop Entry'', ''Exec'')
           = Some (''aa-exec -p '' @ appid @ '' -- '' @ oldexec)
       \<and> built_keyfile (''Desktop Entry'', ''Path'')
           = Some (g_build_filename [''/cache/desktop'', appid]))
   \<and> src_keyfile (''Desktop Entry'', ''Path'') = Some ''/old/place''
   \<and> built_keyfile (''Desktop Entry'', ''XCanonicalOldPath'') = Some ''/old/place''"
proof -
  have load: "\<And>f kf. key_file_load fs_click_only f = Some kf \<Longrightarrow> kf = src_keyfile"
    by (simp add: fs_click_only_def split: if_splits)
  have old: "src_keyfile (''Desktop Entry'', ''Path'') = Some ''/old/place''"
    by (simp add: src_keyfile_def)
  from generated_desktop_file_shape [OF click_only_run, of
      "''/data/applications/click-com.ex_app_1.0.desktop''" built_keyfile]
  obtain appid indesktop keyfile oldexec where
    k: "key_file_load fs_click_only indesktop = Some keyfile"
    and p: "''/data/applications/click-com.ex_app_1.0.desktop''
           = g_build_filename [''/data/applications'', ''click-'' @ appid @ ''.desktop'']"
    and e: "built_keyfile (''Desktop Entry'', ''Exec'')
           = Some (''aa-exec -p '' @ appid @ '' -- '' @ oldexec)"
    and d: "built_keyfile (''Desktop Entry'', ''Path'')
           = Some (g_build_filename [''/cache/desktop'', appid])"
    and x: "\<forall>oldpath. keyfile (''Desktop Entry'', ''Path'') = Some oldpath \<longrightarrow>
               built_keyfile (''Desktop Entry'', ''XCanonicalOldPath'') = Some oldpath"
    by auto
  from load [OF k] x old
  have "built_keyfile (''Desktop Entry'', ''XCanonicalOldPath'') = Some ''/old/place''"
    by simp
  with click_only_run p e d old show ?thesis by blast
qed

section \<open>Properties of the icon finder\<close>

subsection \<open>The order of the search paths\<close>

lemma insert_by_filter:
  "filter (\<lambda>y. f y = k) (insert_by (\<lambda>l r. f l > f r) x ys)
     = (if f x = k then x # filter (\<lambda>y. f y = k) ys else filter (\<lambda>y. f y = k) ys)"
  for f :: "'a \<Rightarrow> int"
  by (induction ys) auto

lemma list_sort_filter:
  "filter (\<lambda>y. f y = k) (list_sort (\<lambda>l r. f l > f r) xs) = filter (\<lambda>y. f y = k) xs"
  for f :: "'a \<Rightarrow> int"
  by (induction xs) (simp_all add: list_sort_def insert_by_filter)

lemma set_insert_by: "set (insert_by cmp x ys) = insert x (set ys)"
  by (induction ys) auto

lemma insert_by_sorted:
  "sorted_wrt (\<lambda>a b. f a \<ge> f b) ys
     \<Longrightarrow> sorted_wrt (\<lambda>a b. f a \<ge> f b) (insert_by (\<lambda>l r. f l > f r) x ys)"
  for f :: "'a \<Rightarrow> int"
  by (induction ys) (auto simp: set_insert_by)

lemma list_sort_sorted:
  "sorted_wrt (\<lambda>a b. f a \<ge> f b) (list_sort (\<lambda>l r. f l > f r) xs)"
  for f :: "'a \<Rightarrow> int"
  by (induction xs) (simp_all add: list_sort_def insert_by_sorted)

subsection \<open>Probing one directory\<close>

lemma g_build_filename_nonempty: "b \<noteq> [] \<Longrightarrow> g_build_filename [a, b] \<noteq> []"
  by (auto simp: g_build_filename_def build_step_def Let_def elem_trail_def
        split: option.splits if_splits)

lemma probe_extensions_find:
  "probe_extensions fs p iconName exts
     = (case List.find (file_exists fs) (map (\<lambda>ext. g_build_filename [p, iconName @ ext]) exts) of
          None \<Rightarrow> [] | Some r \<Rightarrow> r)"
  by (induction exts) auto

lemma findExistingIcon_candidates:
  "findExistingIcon fs p iconName
     = (case List.find (file_exists fs) (icon_candidates p iconName) of
          None \<Rightarrow> [] | Some r \<Rightarrow> r)"
  by (simp add: findExistingIcon_def hasImageExtension_def icon_candidates_def ICON_TYPES_def
      g_str_has_suffix_def probe_extensions_find)

lemma candidates_nonempty:
  assumes "r \<in> set (icon_candidates p iconName)"
  shows "r \<noteq> []"
proof -
  from assms obtain b where "b \<noteq> []" and "r = g_build_filename [p, b]"
    by (auto simp: icon_candidates_def suffix_def split: if_splits)
  then show ?thesis by (simp add: g_build_filename_nonempty)
qed

lemma find_None_list_ex: "List.find P xs = None \<longleftrightarrow> \<not> list_ex P xs"
  by (auto simp: find_None_iff list_ex_iff)

lemma findExistingIcon_empty_iff:
  "findExistingIcon fs p iconName = [] \<longleftrightarrow> \<not> contains_match fs p iconName"
proof (cases "List.find (file_exists fs) (icon_candidates p iconName)")
  case None
  then show ?thesis
    by (simp add: findExistingIcon_candidates contains_match_def find_None_list_ex [symmetric])
next
  case (Some r)
  then have "r \<in> set (icon_candidates p iconName)"
    by (auto simp: find_Some_iff)
  then have "r \<noteq> []" by (rule candidates_nonempty)
  with Some show ?thesis
    by (simp add: findExistingIcon_candidates contains_match_def find_None_list_ex [symmetric])
qed

lemma findExistingIcon_found:
  assumes "contains_match fs p iconName"
  shows "List.find (file_exists fs) (icon_candidates p iconName)
           = Some (findExistingIcon fs p iconName)"
    and "findExistingIcon fs p iconName \<in> set (icon_candidates p iconName)"
    and "file_exists fs (findExistingIcon fs p iconName)"
proof -
  from assms obtain r where r: "List.find (file_exists fs) (icon_candidates p iconName) = Some r"
    by (cases "List.find (file_exists fs) (icon_candidates p iconName)")
       (auto simp: contains_match_def find_None_list_ex)
  then have e: "findExistingIcon fs p iconName = r" by (simp add: findExistingIcon_candidates)
  from r e show "List.find (file_exists fs) (icon_candidates p iconName)
                   = Some (findExistingIcon fs p iconName)"
    by simp
  from r e show "findExistingIcon fs p iconName \<in> set (icon_candidates p iconName)"
    by (auto simp: find_Some_iff)
  from r e show "file_exists fs (findExistingIcon fs p iconName)"
    by (auto simp: find_Some_iff)
qed

subsection \<open>The loop over the search paths\<close>

lemma find_step_skip:
  "\<not> size' p > best_size st \<Longrightarrow> find_step fs n i st p = st"
  by (simp add: find_step_def)

lemma find_step_miss:
  "size' p > best_size st \<Longrightarrow> \<not> contains_match fs (path p) n
     \<Longrightarrow> find_step fs n i st p = st\<lparr>probed := probed st @ [i]\<rparr>"
  by (simp add: find_step_def Let_def findExistingIcon_empty_iff)

lemma find_step_hit:
  "size' p > best_size st \<Longrightarrow> contains_match fs (path p) n
     \<Longrightarrow> find_step fs n i st p
           = st\<lparr>probed := probed st @ [i], best_size := size' p,
                iconPath := findExistingIcon fs (path p) n\<rparr>"
  by (simp add: find_step_def Let_def findExistingIcon_empty_iff)

lemma find_step_cases:
  obtains (skip) "\<not> size' p > best_size st" "find_step fs n i st p = st"
  | (miss) "size' p > best_size st" "\<not> contains_match fs (path p) n"
      "find_step fs n i st p = st\<lparr>probed := probed st @ [i]\<rparr>"
  | (hit) "size' p > best_size st" "contains_match fs (path p) n"
      "find_step fs n i st p
         = st\<lparr>probed := probed st @ [i], best_size := size' p,
              iconPath := findExistingIcon fs (path p) n\<rparr>"
  using find_step_skip find_step_miss find_step_hit by blast

lemma find_step_mono: "best_size st \<le> best_size (find_step fs n i st p)"
  by (cases rule: find_step_cases [where p = p and st = st and fs = fs and n = n and i = i])
     simp_all

lemma find_loop_append:
  "find_loop fs n i st (xs @ ys) = find_loop fs n (i + length xs) (find_loop fs n i st xs) ys"
  by (induction xs arbitrary: i st) simp_all

lemma find_loop_mono: "best_size st \<le> best_size (find_loop fs n i st ps)"
proof (induction ps arbitrary: i st)
  case Nil
  show ?case by simp
next
  case (Cons p ps)
  have "best_size st \<le> best_size (find_step fs n i st p)" by (rule find_step_mono)
  also have "\<dots> \<le> best_size (find_loop fs n (Suc i) (find_step fs n i st p) ps)" by (rule Cons)
  finally show ?case by simp
qed

lemma find_loop_unchanged:
  assumes "\<forall>d \<in> set ps. \<not> (size' d > best_size st \<and> contains_match fs (path d) n)"
  shows "best_size (find_loop fs n i st ps) = best_size st
       \<and> iconPath (find_loop fs n i st ps) = iconPath st"
  using assms
proof (induction ps arbitrary: i st)
  case Nil
  show ?case by simp
next
  case (Cons p ps)
  have same: "best_size (find_step fs n i st p) = best_size st
            \<and> iconPath (find_step fs n i st p) = iconPath st"
    using Cons.prems
    by (cases rule: find_step_cases [where p = p and st = st and fs = fs and n = n and i = i])
       simp_all
  with Cons.prems
  have "\<forall>d \<in> set ps. \<not> (size' d > best_size (find_step fs n i st p)
                          \<and> contains_match fs (path d) n)"
    by simp
  from Cons.IH [OF this] same show ?case by simp
qed

lemma find_loop_winner:
  assumes "\<exists>d \<in> set ps. size' d > best_size st \<and> contains_match fs (path d) n"
  shows "\<exists>k < length ps.
           contains_match fs (path (ps ! k)) n
         \<and> size' (ps ! k) > best_size st
         \<and> (\<forall>d' \<in> set ps. contains_match fs (path d') n \<longrightarrow> size' d' \<le> size' (ps ! k))
         \<and> (\<forall>j < k. contains_match fs (path (ps ! j)) n \<longrightarrow> size' (ps ! j) < size' (ps ! k))
         \<and> best_size (find_loop fs n i st ps) = size' (ps ! k)
         \<and> iconPath (find_loop fs n i st ps) = findExistingIcon fs (path (ps ! k)) n"
  using assms
proof (induction ps arbitrary: i st)
  case Nil
  then show ?case by simp
next
  case (Cons p ps)
  let ?st1 = "find_step fs n i st p"
  let ?M = "\<lambda>d. contains_match fs (path d) n"
  show ?case
  proof (cases "size' p > best_size st \<and> ?M p")
    case True
    then have st1: "best_size ?st1 = size' p" "iconPath ?st1 = findExistingIcon fs (path p) n"
      by (simp_all add: find_step_hit)
    show ?thesis
    proof (cases "\<exists>d \<in> set ps. size' d > size' p \<and> ?M d")
      case False
      then have "\<forall>d \<in> set ps. \<not> (size' d > best_size ?st1 \<and> ?M d)"
        using st1 by simp
      from find_loop_unchanged [OF this, of "Suc i"] st1
      have fin: "best_size (find_loop fs n i st (p # ps)) = size' p"
        "iconPath (find_loop fs n i st (p # ps)) = findExistingIcon fs (path p) n"
        by simp_all
      have le: "\<forall>d' \<in> set (p # ps). ?M d' \<longrightarrow> size' d' \<le> size' p"
        using False by auto
      from True fin le show ?thesis
        by (intro exI [of _ 0]) simp
    next
      case ex: True
      then have "\<exists>d \<in> set ps. size' d > best_size ?st1 \<and> ?M d" using st1 by simp
      from Cons.IH [OF this, of "Suc i"] obtain k where k: "k < length ps" "?M (ps ! k)"
        "size' (ps ! k) > best_size ?st1"
        "\<forall>d' \<in> set ps. ?M d' \<longrightarrow> size' d' \<le> size' (ps ! k)"
        "\<forall>j < k. ?M (ps ! j) \<longrightarrow> size' (ps ! j) < size' (ps ! k)"
        "best_size (find_loop fs n (Suc i) ?st1 ps) = size' (ps ! k)"
        "iconPath (find_loop fs n (Suc i) ?st1 ps) = findExistingIcon fs (path (ps ! k)) n"
        by blast
      from k(3) st1 True have gt: "size' p < size' (ps ! k)" "best_size st < size' (ps ! k)"
        by simp_all
      have earlier: "\<forall>j < Suc k. ?M ((p # ps) ! j) \<longrightarrow> size' ((p # ps) ! j) < size' (ps ! k)"
        using k(5) gt(1) by (auto simp: less_Suc_eq_0_disj)
      have all: "\<forall>d' \<in> set (p # ps). ?M d' \<longrightarrow> size' d' \<le> size' (ps ! k)"
        using k(4) gt(1) by auto
      from k gt earlier all show ?thesis
        by (intro exI [of _ "Suc k"]) simp
    qed
  next
    case False
    have same: "best_size ?st1 = best_size st" "iconPath ?st1 = iconPath st"
      using False
      by (cases rule: find_step_cases [where p = p and st = st and fs = fs and n = n and i = i];
          simp)+
    from Cons.prems False have "\<exists>d \<in> set ps. size' d > best_size ?st1 \<and> ?M d"
      using same by auto
    from Cons.IH [OF this, of "Suc i"] obtain k where k: "k < length ps" "?M (ps ! k)"
      "size' (ps ! k) > best_size ?st1"
      "\<forall>d' \<in> set ps. ?M d' \<longrightarrow> size' d' \<le> size' (ps ! k)"
      "\<forall>j < k. ?M (ps ! j) \<longrightarrow> size' (ps ! j) < size' (ps ! k)"
      "best_size (find_loop fs n (Suc i) ?st1 ps) = size' (ps ! k)"
      "iconPath (find_loop fs n (Suc i) ?st1 ps) = findExistingIcon fs (path (ps ! k)) n"
      by blast
    from k(3) same have gt: "best_size st < size' (ps ! k)" by simp
    from False gt have p: "?M p \<longrightarrow> size' p < size' (ps ! k)" by auto
    have earlier: "\<forall>j < Suc k. ?M ((p # ps) ! j) \<longrightarrow> size' ((p # ps) ! j) < size' (ps ! k)"
      using k(5) p by (auto simp: less_Suc_eq_0_disj)
    have all: "\<forall>d' \<in> set (p # ps). ?M d' \<longrightarrow> size' d' \<le> size' (ps ! k)"
      using k(4) p by auto
    from k gt earlier all show ?thesis
      by (intro exI [of _ "Suc k"]) simp
  qed
qed

lemma find_loop_same_size:
  "best_size (find_loop fs n i st ps) = best_size st
     \<Longrightarrow> iconPath (find_loop fs n i st ps) = iconPath st"
proof (induction ps arbitrary: i st)
  case Nil
  show ?case by simp
next
  case (Cons p ps)
  let ?st1 = "find_step fs n i st p"
  have up: "best_size ?st1 \<le> best_size (find_loop fs n (Suc i) ?st1 ps)"
    by (rule find_loop_mono)
  have low: "best_size st \<le> best_size ?st1" by (rule find_step_mono)
  from Cons.prems up low have eq: "best_size ?st1 = best_size st" by simp
  then have "iconPath ?st1 = iconPath st"
    by (cases rule: find_step_cases [where p = p and st = st and fs = fs and n = n and i = i])
       simp_all
  moreover from Cons.prems eq have "iconPath (find_loop fs n (Suc i) ?st1 ps) = iconPath ?st1"
    by (intro Cons.IH) simp
  ultimately show ?case by simp
qed

lemma probed_find_step:
  "x \<in> set (probed (find_step fs n i st p))
     \<longleftrightarrow> x \<in> set (probed st) \<or> (x = i \<and> size' p > best_size st)"
  by (cases rule: find_step_cases [where p = p and st = st and fs = fs and n = n and i = i])
     auto

lemma probed_find_loop:
  "x \<in> set (probed (find_loop fs n i st ps))
     \<longleftrightarrow> x \<in> set (probed st)
         \<or> (\<exists>k < length ps. x = i + k
               \<and> size' (ps ! k) > best_size (find_loop fs n i st (take k ps)))"
proof (induction ps arbitrary: i st)
  case Nil
  show ?case by simp
next
  case (Cons p ps)
  let ?st1 = "find_step fs n i st p"
  have "(\<exists>k < length (p # ps). x = i + k
            \<and> size' ((p # ps) ! k) > best_size (find_loop fs n i st (take k (p # ps))))
        \<longleftrightarrow> (x = i \<and> size' p > best_size st)
          \<or> (\<exists>k < length ps. x = Suc i + k
                \<and> size' (ps ! k) > best_size (find_loop fs n (Suc i) ?st1 (take k ps)))"
    (is "?L \<longleftrightarrow> ?A \<or> ?B")
  proof
    assume ?L
    then obtain k where k: "k < length (p # ps)" "x = i + k"
      "size' ((p # ps) ! k) > best_size (find_loop fs n i st (take k (p # ps)))" by blast
    show "?A \<or> ?B"
    proof (cases k)
      case 0
      with k show ?thesis by simp
    next
      case (Suc k')
      with k have "k' < length ps \<and> x = Suc i + k'
          \<and> size' (ps ! k') > best_size (find_loop fs n (Suc i) ?st1 (take k' ps))" by simp
      then show ?thesis by blast
    qed
  next
    assume "?A \<or> ?B"
    then show ?L
    proof
      assume ?A
      then show ?L by (intro exI [of _ 0]) simp
    next
      assume ?B
      then obtain k where "k < length ps" "x = Suc i + k"
        "size' (ps ! k) > best_size (find_loop fs n (Suc i) ?st1 (take k ps))" by blast
      then show ?L by (intro exI [of _ "Suc k"]) simp
    qed
  qed
  with Cons [of "Suc i" ?st1] probed_find_step [of x fs n i st p] show ?case
    by auto
qed

lemma probed_find_by_size:
  "j < length paths \<Longrightarrow>
   j \<in> set (probed (find_by_size fs paths n))
     \<longleftrightarrow> size' (paths ! j)
           > best_size (find_loop fs n 0 \<lparr>best_size = 0, iconPath = [], probed = []\<rparr> (take j paths))"
  by (auto simp: find_by_size_def probed_find_loop)

lemma find_loop_after_hit:
  assumes "i < length paths"
    and "size' (paths ! i) > best_size (find_loop fs n 0 st (take i paths))"
    and "contains_match fs (path (paths ! i)) n"
  shows "best_size (find_loop fs n 0 st (take (Suc i) paths)) = size' (paths ! i)"
    and "iconPath (find_loop fs n 0 st (take (Suc i) paths))
           = findExistingIcon fs (path (paths ! i)) n"
proof -
  from assms(1) have t: "take (Suc i) paths = take i paths @ [paths ! i]"
    by (simp add: take_Suc_conv_app_nth)
  from assms(2,3) show "best_size (find_loop fs n 0 st (take (Suc i) paths)) = size' (paths ! i)"
    by (simp add: t find_loop_append find_step_hit)
  from assms(2,3) show "iconPath (find_loop fs n 0 st (take (Suc i) paths))
           = findExistingIcon fs (path (paths ! i)) n"
    by (simp add: t find_loop_append find_step_hit)
qed

lemma find_loop_take_mono:
  assumes "a \<le> b"
  shows "best_size (find_loop fs n 0 st (take a paths))
           \<le> best_size (find_loop fs n 0 st (take b paths))"
proof -
  from assms have "take b paths = take a paths @ drop a (take b paths)"
    by (metis append_take_drop_id min.absorb1 take_take)
  then have "find_loop fs n 0 st (take b paths)
      = find_loop fs n (0 + length (take a paths)) (find_loop fs n 0 st (take a paths))
          (drop a (take b paths))"
    by (metis find_loop_append)
  then show ?thesis by (simp add: find_loop_mono)
qed

lemma find_loop_take_all:
  "find_loop fs n 0 st paths = find_loop fs n 0 st (take (length paths) paths)"
  by simp


subsection \<open>The result of the search by size\<close>

lemma find_by_size_none:
  assumes "\<not> (\<exists>d \<in> set ps. 0 < size' d \<and> contains_match fs (path d) n)"
  shows "iconPath (find_by_size fs ps n) = []"
proof -
  from assms have "\<forall>d \<in> set ps. \<not> (size' d > best_size \<lparr>best_size = 0, iconPath = [], probed = []\<rparr>
                                     \<and> contains_match fs (path d) n)"
    by simp
  from find_loop_unchanged [OF this, of 0] show ?thesis by (simp add: find_by_size_def)
qed

lemma find_by_size_some:
  assumes "\<exists>d \<in> set ps. 0 < size' d \<and> contains_match fs (path d) n"
  shows "\<exists>k < length ps.
           0 < size' (ps ! k)
         \<and> contains_match fs (path (ps ! k)) n
         \<and> (\<forall>d' \<in> set ps. contains_match fs (path d') n \<longrightarrow> size' d' \<le> size' (ps ! k))
         \<and> (\<forall>j < k. contains_match fs (path (ps ! j)) n \<longrightarrow> size' (ps ! j) < size' (ps ! k))
         \<and> iconPath (find_by_size fs ps n) = findExistingIcon fs (path (ps ! k)) n"
proof -
  from assms have "\<exists>d \<in> set ps. size' d > best_size \<lparr>best_size = 0, iconPath = [], probed = []\<rparr>
                                 \<and> contains_match fs (path d) n"
    by simp
  from find_loop_winner [OF this, of 0] show ?thesis
    by (simp add: find_by_size_def) blast
qed

subsection \<open>Concrete runs\<close>

lemma two_themes_paths:
  "getSearchPaths fs_two_themes ''/base''
     = [\<lparr>path = ''/base/icons/hicolor/48x48/apps'', size' = 48\<rparr>,
        \<lparr>path = ''/base/icons/Humanity/48x48/apps'', size' = 48\<rparr>,
        \<lparr>path = ''/base/icons/hicolor'', size' = 1\<rparr>,
        \<lparr>path = ''/base/icons/Humanity'', size' = 1\<rparr>,
        \<lparr>path = ''/base/icons'', size' = 1\<rparr>]"
  by code_simp

lemma two_themes_run:
  "find_by_size fs_two_themes (getSearchPaths fs_two_themes ''/base'') ''foo''
     = \<lparr>best_size = 48, iconPath = ''/base/icons/hicolor/48x48/apps/foo.png'', probed = [0]\<rparr>"
  by code_simp

lemma two_themes_matches:
  "contains_match fs_two_themes ''/base/icons/hicolor/48x48/apps'' ''foo''"
  "contains_match fs_two_themes ''/base/icons/Humanity/48x48/apps'' ''foo''"
  "contains_match fs_two_themes ''/base/icons'' ''foo''"
  by code_simp+

lemma fallthrough_paths:
  "getSearchPaths fs_fallthrough ''/opt/app'' = [\<lparr>path = ''/opt/app/icons'', size' = 1\<rparr>]"
  by code_simp

lemma fallthrough_explicit:
  "is_explicit ''/abs/icon.png''"
  "\<not> merge_cycles ''/opt/app'' ''/abs/icon.png''"
  "merge_candidate ''/opt/app'' ''/abs/icon.png'' = Some ''/opt/abs/icon.png''"
  "explicit_fails fs_fallthrough ''/opt/app'' ''/abs/icon.png''"
  "is_explicit ''/abs/other.png''"
  "\<not> merge_cycles ''/opt/app'' ''/abs/other.png''"
  "merge_candidate ''/opt/app'' ''/abs/other.png'' = Some ''/opt/abs/other.png''"
  "explicit_fails fs_fallthrough ''/opt/app'' ''/abs/other.png''"
  by code_simp+

lemma fallthrough_cycle:
  "is_explicit ''/opt/app/icon.png''"
  "merge_cycles ''/opt/app'' ''/opt/app/icon.png''"
  "\<not> file_exists fs_fallthrough ''/opt/app/icon.png''"
  "\<not> file_exists fs_fallthrough (g_build_filename [''/opt/app'', ''/opt/app/icon.png''])"
  by code_simp+

subsection \<open>When the merge heuristic does not return\<close>

lemma find_last_of_leading_slash:
  assumes "parent \<noteq> []" and "hd parent = CHR ''/''"
  shows "find_last_of parent CHR ''/'' pos \<noteq> None"
proof -
  define n where "n = (case pos of None \<Rightarrow> length parent | Some p \<Rightarrow> min (Suc p) (length parent))"
  from assms(1) have "0 < n" by (cases pos) (simp_all add: n_def)
  moreover from assms have "parent ! 0 = CHR ''/''" by (simp add: hd_conv_nth)
  ultimately have "0 \<in> set (filter (\<lambda>i. parent ! i = CHR ''/'') [0..<n])" by simp
  then have "filter (\<lambda>i. parent ! i = CHR ''/'') [0..<n] \<noteq> []"
    by (metis empty_iff empty_set)
  then show ?thesis by (simp add: find_last_of_def n_def [symmetric] Let_def)
qed

lemma merge_loop_cycle:
  assumes "tryMerge_loop fs parent child slashPos prevSlashPos = Some y"
  shows "\<not> (parent \<noteq> [] \<and> hd parent = CHR ''/'' \<and> sublist parent child \<and> slashPos \<noteq> None)"
proof (rule tryMerge_loop.raw_induct
    [where P = "\<lambda>fs parent child slashPos prevSlashPos y.
                  \<not> (parent \<noteq> [] \<and> hd parent = CHR ''/'' \<and> sublist parent child
                     \<and> slashPos \<noteq> None)",
     OF _ assms])
  fix f :: "filesys \<Rightarrow> string \<Rightarrow> string \<Rightarrow> nat option \<Rightarrow> nat option \<Rightarrow> string option"
    and fs parent child slashPos prevSlashPos and y :: string
  assume ih: "\<And>fs parent child slashPos prevSlashPos y.
        f fs parent child slashPos prevSlashPos = Some y \<Longrightarrow>
        \<not> (parent \<noteq> [] \<and> hd parent = CHR ''/'' \<and> sublist parent child \<and> slashPos \<noteq> None)"
    and body: "(case slashPos of
        None \<Rightarrow> Some child
      | Some sp \<Rightarrow>
          (case (if find_is_npos child (drop sp parent) then prevSlashPos else None) of
             None \<Rightarrow>
               f fs parent child
                 (find_last_of parent CHR ''/'' (if sp = 0 then None else Some (sp - 1)))
                 (Some sp)
           | Some prev \<Rightarrow>
               (if file_exists fs (g_build_filename [take prev parent, child])
                then Some (g_build_filename [take prev parent, child])
                else Some child))) = Some y"
  show "\<not> (parent \<noteq> [] \<and> hd parent = CHR ''/'' \<and> sublist parent child \<and> slashPos \<noteq> None)"
  proof
    assume a: "parent \<noteq> [] \<and> hd parent = CHR ''/'' \<and> sublist parent child \<and> slashPos \<noteq> None"
    then obtain sp where sp: "slashPos = Some sp" by auto
    have "sublist (drop sp parent) parent" by (simp add: suffix_drop)
    with a have "sublist (drop sp parent) child" by (meson sublist_order.order_trans)
    then have c: "\<not> find_is_npos child (drop sp parent)" by (simp add: find_is_npos_def)
    from body sp c
    have "f fs parent child
            (find_last_of parent CHR ''/'' (if sp = 0 then None else Some (sp - 1))) (Some sp)
          = Some y"
      by simp
    from ih [OF this] a find_last_of_leading_slash show False by blast
  qed
qed

lemma tryMergeFilePaths_diverges:
  assumes "parent \<noteq> []" and "hd parent = CHR ''/''" and "sublist parent child"
  shows "tryMergeFilePaths fs parent child = None"
proof (cases "tryMergeFilePaths fs parent child")
  case None
  then show ?thesis .
next
  case (Some y)
  then have "tryMerge_loop fs parent child (find_last_of parent CHR ''/'' None) None = Some y"
    by (simp add: tryMergeFilePaths_def)
  from merge_loop_cycle [OF this] assms find_last_of_leading_slash show ?thesis by blast
qed

text \<open>
  With a base path that begins with a separator and an icon name that contains the base
  path, \<open>find\<close> does not return when the icon is neither at the name given nor at the
  name joined under the base path.
\<close>

lemma find_icon_diverges:
  assumes "basePath finder \<noteq> []" and "hd (basePath finder) = CHR ''/''"
    and "sublist (basePath finder) iconName" and "is_explicit iconName"
    and "\<not> file_exists fs iconName"
    and "\<not> file_exists fs (g_build_filename [basePath finder, iconName])"
  shows "find_icon fs finder iconName = None"
  using assms
  by (simp add: find_icon_def tryFindExplicitFile_def tryMergeFilePaths_diverges)

lemma merge_cycles_diverges:
  "merge_cycles parent child \<Longrightarrow> tryMergeFilePaths fs parent child = None"
  by (rule tryMergeFilePaths_diverges) (auto simp: merge_cycles_def prefix_def)

subsection \<open>When the merge heuristic returns, and what\<close>

declare scan_from.simps [simp del]

lemma find_last_of_Some:
  assumes "find_last_of s c pos = Some i"
  shows "i < length s" and "s ! i = c"
proof -
  define n where "n = (case pos of None \<Rightarrow> length s | Some p \<Rightarrow> min (Suc p) (length s))"
  define idxs where "idxs = filter (\<lambda>i. s ! i = c) [0..<n]"
  from assms have ne: "idxs \<noteq> []" and l: "i = last idxs"
    by (auto simp: find_last_of_def idxs_def n_def Let_def split: if_splits)
  from ne have "last idxs \<in> set idxs" by (rule last_in_set)
  with l have "i < n" "s ! i = c" by (simp_all add: idxs_def)
  moreover have "n \<le> length s" by (cases pos) (simp_all add: n_def)
  ultimately show "i < length s" and "s ! i = c" by simp_all
qed

lemma elem_parts:
  assumes "elem_core e \<noteq> []"
  shows "elem_lead e @ elem_core e @ elem_trail e = e"
proof -
  let ?d = "dropWhile is_sep e"
  from assms have d: "dropWhile is_sep (rev ?d) \<noteq> []" by (simp add: elem_core_def)
  then obtain x where x: "x \<in> set (rev ?d)" "\<not> is_sep x"
    by (metis dropWhile_eq_Nil_conv)
  have "rev e = rev ?d @ rev (takeWhile is_sep e)"
    by (metis rev_append takeWhile_dropWhile_id)
  with x have t: "takeWhile is_sep (rev e) = takeWhile is_sep (rev ?d)"
    by simp
  have "rev (dropWhile is_sep (rev ?d)) @ rev (takeWhile is_sep (rev ?d)) = ?d"
    by (metis rev_append rev_rev_ident takeWhile_dropWhile_id)
  with t have "rev (dropWhile is_sep (rev ?d)) @ rev (takeWhile is_sep (rev e)) = ?d"
    by simp
  then have "takeWhile is_sep e @ rev (dropWhile is_sep (rev ?d)) @ rev (takeWhile is_sep (rev e))
      = e"
    by simp
  moreover from assms have "elem_trail e = rev (takeWhile is_sep (rev e))"
    by (simp add: elem_trail_def)
  ultimately show ?thesis
    by (simp add: elem_lead_def elem_core_def)
qed

lemma g_build_filename_single: "g_build_filename [[], e] = e"
proof (cases "e = []")
  case True
  then show ?thesis by (simp add: g_build_filename_def build_step_def)
next
  case False
  show ?thesis
  proof (cases "elem_core e = []")
    case True
    with False show ?thesis by (simp add: g_build_filename_def build_step_def Let_def)
  next
    case core: False
    with False elem_parts [OF core] show ?thesis
      by (simp add: g_build_filename_def build_step_def Let_def)
  qed
qed

lemma merge_loop_scan:
  "tryMerge_loop fs parent child (Some sp) prev
     = (case scan_from parent child sp prev of
          Candidate c \<Rightarrow> Some (if file_exists fs c then c else child)
        | Exhausted \<Rightarrow> Some child
        | Wrapped \<Rightarrow>
            tryMerge_loop fs parent child (find_last_of parent CHR ''/'' None) (Some 0))"
proof (induction parent child sp prev rule: scan_from.induct)
  case (1 parent child sp prev)
  show ?case
  proof (cases "if find_is_npos child (drop sp parent) then prev else None")
    case (Some pv)
    then show ?thesis
      by (subst tryMerge_loop.simps, subst scan_from.simps) simp
  next
    case None
    note guard = this
    show ?thesis
    proof (cases "sp = 0")
      case True
      with guard show ?thesis
        by (subst tryMerge_loop.simps, subst scan_from.simps) simp
    next
      case False
      show ?thesis
      proof (cases "find_last_of parent CHR ''/'' (Some (sp - 1))")
        case None
        with guard False show ?thesis
          by (subst tryMerge_loop.simps, subst scan_from.simps)
             (simp add: tryMerge_loop.simps [of _ _ _ None])
      next
        case (Some sp')
        from "1.IH" [OF guard False Some]
        have "tryMerge_loop fs parent child (Some sp') (Some sp)
            = (case scan_from parent child sp' (Some sp) of
                 Candidate c \<Rightarrow> Some (if file_exists fs c then c else child)
               | Exhausted \<Rightarrow> Some child
               | Wrapped \<Rightarrow>
                   tryMerge_loop fs parent child (find_last_of parent CHR ''/'' None) (Some 0))" .
        with guard False Some show ?thesis
          by (subst tryMerge_loop.simps, subst scan_from.simps) simp
      qed
    qed
  qed
qed

lemma scan_wrapped:
  assumes "scan_from parent child sp prev = Wrapped"
    and "sp < length parent" and "parent ! sp = CHR ''/''"
  shows "parent ! 0 = CHR ''/'' \<and> (prev \<noteq> None \<or> sp \<noteq> 0 \<longrightarrow> sublist parent child)"
  using assms
proof (induction parent child sp prev rule: scan_from.induct)
  case (1 parent child sp prev)
  have guard: "(if find_is_npos child (drop sp parent) then prev else None) = None"
  proof (cases "if find_is_npos child (drop sp parent) then prev else None")
    case None
    then show ?thesis .
  next
    case (Some pv)
    with "1.prems"(1) show ?thesis
      by (subst (asm) scan_from.simps) simp
  qed
  show ?case
  proof (cases "sp = 0")
    case True
    with guard "1.prems"(3) show ?thesis
      by (auto simp: find_is_npos_def split: if_splits)
  next
    case False
    from "1.prems"(1) guard False
    have "(case find_last_of parent CHR ''/'' (Some (sp - 1)) of
             None \<Rightarrow> Exhausted
           | Some sp' \<Rightarrow> scan_from parent child sp' (Some sp)) = Wrapped"
      by (subst (asm) scan_from.simps) simp
    then obtain sp' where
      f: "find_last_of parent CHR ''/'' (Some (sp - 1)) = Some sp'"
      and w: "scan_from parent child sp' (Some sp) = Wrapped"
      by (cases "find_last_of parent CHR ''/'' (Some (sp - 1))") simp_all
    from "1.IH" [OF guard False f w] find_last_of_Some [OF f] False
    show ?thesis by simp
  qed
qed

lemma tryMergeFilePaths_total:
  assumes "\<not> merge_cycles parent child"
  shows "tryMergeFilePaths fs parent child
           = Some (case merge_candidate parent child of
                     Some c \<Rightarrow> if file_exists fs c then c else child
                   | None \<Rightarrow> child)"
proof (cases "find_last_of parent CHR ''/'' None")
  case None
  then show ?thesis
    by (simp add: tryMergeFilePaths_def merge_candidate_def tryMerge_loop.simps [of _ _ _ None])
next
  case (Some sp)
  note pos = find_last_of_Some [OF Some]
  show ?thesis
  proof (cases "scan_from parent child sp None")
    case (Candidate c)
    with Some show ?thesis
      by (simp add: tryMergeFilePaths_def merge_candidate_def merge_loop_scan)
  next
    case Exhausted
    with Some show ?thesis
      by (simp add: tryMergeFilePaths_def merge_candidate_def merge_loop_scan)
  next
    case Wrapped
    from scan_wrapped [OF Wrapped pos]
    have z: "parent ! 0 = CHR ''/''" and s: "sp \<noteq> 0 \<longrightarrow> sublist parent child" by simp_all
    from pos(1) z have "prefix ''/'' parent"
      by (cases parent) simp_all
    with assms have ns: "\<not> sublist parent child" by (simp add: merge_cycles_def)
    with s have sp0: "sp = 0" by blast
    from ns have "tryMerge_loop fs parent child (Some 0) (Some 0) = Some child"
      by (subst tryMerge_loop.simps) (simp add: find_is_npos_def g_build_filename_single)
    with Wrapped Some sp0 show ?thesis
      by (simp add: tryMergeFilePaths_def merge_candidate_def merge_loop_scan)
  qed
qed

subsection \<open>The explicit resolution as a whole\<close>

lemma scan_candidate_built:
  assumes "scan_from parent child sp prev = Candidate c"
  shows "\<exists>pv. c = g_build_filename [take pv parent, child]"
  using assms
proof (induction parent child sp prev rule: scan_from.induct)
  case (1 parent child sp prev)
  show ?case
  proof (cases "if find_is_npos child (drop sp parent) then prev else None")
    case (Some pv)
    with "1.prems" have "c = g_build_filename [take pv parent, child]"
      by (subst (asm) scan_from.simps) simp
    then show ?thesis by blast
  next
    case None
    note guard = this
    show ?thesis
    proof (cases "sp = 0")
      case True
      with "1.prems" guard show ?thesis
        by (subst (asm) scan_from.simps) simp
    next
      case False
      from "1.prems" guard False
      have "(case find_last_of parent CHR ''/'' (Some (sp - 1)) of
               None \<Rightarrow> Exhausted
             | Some sp' \<Rightarrow> scan_from parent child sp' (Some sp)) = Candidate c"
        by (subst (asm) scan_from.simps) simp
      then obtain sp' where
        f: "find_last_of parent CHR ''/'' (Some (sp - 1)) = Some sp'"
        and w: "scan_from parent child sp' (Some sp) = Candidate c"
        by (cases "find_last_of parent CHR ''/'' (Some (sp - 1))") simp_all
      from "1.IH" [OF guard False f w] show ?thesis .
    qed
  qed
qed

lemma merge_candidate_nonempty:
  assumes "merge_candidate parent child = Some c" and "child \<noteq> []"
  shows "c \<noteq> []"
proof -
  from assms(1) obtain sp where "scan_from parent child sp None = Candidate c"
    by (auto simp: merge_candidate_def split: option.splits merge_scan.splits)
  from scan_candidate_built [OF this] assms(2) show ?thesis
    by (auto simp: g_build_filename_nonempty)
qed

lemma tryFindExplicitFile_returns:
  assumes "\<not> merge_cycles base iconName"
  shows "tryFindExplicitFile fs base iconName
           = Some (if file_exists fs iconName then iconName
                   else if file_exists fs (g_build_filename [base, iconName])
                   then g_build_filename [base, iconName]
                   else (case merge_candidate base iconName of
                           Some c \<Rightarrow> if file_exists fs c \<and> c \<noteq> iconName then c else []
                         | None \<Rightarrow> []))"
  by (cases "merge_candidate base iconName")
     (simp_all add: tryFindExplicitFile_def tryMergeFilePaths_total [OF assms])

lemma tryFindExplicitFile_hangs:
  assumes "merge_cycles base iconName"
  shows "tryFindExplicitFile fs base iconName
           = (if file_exists fs iconName then Some iconName
              else if file_exists fs (g_build_filename [base, iconName])
              then Some (g_build_filename [base, iconName])
              else None)"
  by (simp add: tryFindExplicitFile_def merge_cycles_diverges [OF assms])

lemma tryFindExplicitFile_empty_iff:
  assumes "iconName \<noteq> []"
  shows "tryFindExplicitFile fs base iconName = Some []
           \<longleftrightarrow> \<not> merge_cycles base iconName \<and> explicit_fails fs base iconName"
proof (cases "merge_cycles base iconName")
  case True
  with assms show ?thesis
    by (simp add: tryFindExplicitFile_hangs g_build_filename_nonempty)
next
  case False
  show ?thesis
  proof (cases "merge_candidate base iconName")
    case None
    with False assms show ?thesis
      by (simp add: tryFindExplicitFile_returns explicit_fails_def g_build_filename_nonempty)
  next
    case (Some c)
    from merge_candidate_nonempty [OF Some assms] have "c \<noteq> []" .
    with False Some assms show ?thesis
      by (auto simp: tryFindExplicitFile_returns explicit_fails_def g_build_filename_nonempty)
  qed
qed

lemma is_explicit_nonempty: "is_explicit iconName \<Longrightarrow> iconName \<noteq> []"
  by (auto simp: is_explicit_def)

text \<open>
  \<open>find\<close> returns on every input but these: a name that begins with a separator, that
  exists neither as given nor joined under the base path, and in which a base path
  beginning with a separator occurs.
\<close>

lemma find_icon_hangs_iff:
  "find_icon fs finder iconName = None
     \<longleftrightarrow> is_explicit iconName
         \<and> \<not> file_exists fs iconName
         \<and> \<not> file_exists fs (g_build_filename [basePath finder, iconName])
         \<and> merge_cycles (basePath finder) iconName"
proof (cases "is_explicit iconName")
  case False
  then show ?thesis by (simp add: find_icon_def)
next
  case True
  show ?thesis
  proof (cases "merge_cycles (basePath finder) iconName")
    case False
    with True show ?thesis
      by (simp add: find_icon_def tryFindExplicitFile_returns)
  next
    case cyc: True
    with True show ?thesis
      by (simp add: find_icon_def tryFindExplicitFile_hangs)
  qed
qed

lemma find_icon_falls_through:
  assumes "\<not> is_explicit iconName
           \<or> (\<not> merge_cycles (basePath finder) iconName
              \<and> explicit_fails fs (basePath finder) iconName)"
  shows "find_icon fs finder iconName
           = Some (iconPath (find_by_size fs (searchPaths finder) iconName))"
proof (cases "is_explicit iconName")
  case False
  then show ?thesis by (simp add: find_icon_def)
next
  case True
  with assms have "tryFindExplicitFile fs (basePath finder) iconName = Some []"
    by (simp add: tryFindExplicitFile_empty_iff is_explicit_nonempty)
  with True show ?thesis by (simp add: find_icon_def)
qed

lemma fallthrough_hangs:
  "find_icon fs_fallthrough (new_IconFinder fs_fallthrough ''/opt/app'') ''/opt/app/icon.png''
     = None"
  using fallthrough_cycle by (simp add: find_icon_hangs_iff new_IconFinder_def)

subsection \<open>Claims\<close>

text \<open>
  C4, as stated, fails in three ways. A directory of size 0 that holds the icon is never
  probed, so \<open>find\<close> returns the empty result although a directory contains a match; an
  icon name that is an existing absolute path is returned as it is, although no search
  directory contains a match; and for the name \<open>/opt/app/icon.png\<close> under the base path
  \<open>/opt/app\<close>, where no such file exists, \<open>find\<close> does not return at all.
\<close>

theorem find_icon_largest_counterexample:
  "searchPaths (new_IconFinder fs_zero ''/base'')
     = [\<lparr>path = ''/base/icons/hicolor'', size' = 1\<rparr>,
        \<lparr>path = ''/base/icons'', size' = 1\<rparr>,
        \<lparr>path = ''/base/icons/hicolor/0x0/apps'', size' = 0\<rparr>]
   \<and> contains_match fs_zero ''/base/icons/hicolor/0x0/apps'' ''foo''
   \<and> find_icon fs_zero (new_IconFinder fs_zero ''/base'') ''foo'' = Some []
   \<and> searchPaths (new_IconFinder fs_abs ''/base'') = []
   \<and> find_icon fs_abs (new_IconFinder fs_abs ''/base'') ''/abs/icon.png'' = Some ''/abs/icon.png''
   \<and> find_icon fs_fallthrough (new_IconFinder fs_fallthrough ''/opt/app'') ''/opt/app/icon.png''
       = None"
proof -
  have "searchPaths (new_IconFinder fs_zero ''/base'')
     = [\<lparr>path = ''/base/icons/hicolor'', size' = 1\<rparr>,
        \<lparr>path = ''/base/icons'', size' = 1\<rparr>,
        \<lparr>path = ''/base/icons/hicolor/0x0/apps'', size' = 0\<rparr>]
   \<and> contains_match fs_zero ''/base/icons/hicolor/0x0/apps'' ''foo''
   \<and> find_icon fs_zero (new_IconFinder fs_zero ''/base'') ''foo'' = Some []
   \<and> searchPaths (new_IconFinder fs_abs ''/base'') = []
   \<and> find_icon fs_abs (new_IconFinder fs_abs ''/base'') ''/abs/icon.png'' = Some ''/abs/icon.png''"
    by code_simp
  with fallthrough_hangs show ?thesis by blast
qed

text \<open>
  C4, amended. Take an icon name that does not begin with a separator, or one that does
  while the three explicit resolutions all fail and the base path does not both begin with
  a separator and occur in the name (the inputs on which the merge heuristic does not
  return). Then \<open>find\<close> returns: the empty result if no search directory of positive size
  contains a match; otherwise the first existing candidate file of a directory that has
  positive size, contains a match, is at least as large as every directory containing a
  match, and comes before every other directory of that size containing a match. The file
  returned exists and its path is not empty.
\<close>

theorem find_icon_largest_positive_size:
  assumes "\<not> is_explicit iconName
           \<or> (\<not> merge_cycles (basePath finder) iconName
              \<and> explicit_fails fs (basePath finder) iconName)"
  shows "(\<not> (\<exists>d \<in> set (searchPaths finder). 0 < size' d \<and> contains_match fs (path d) iconName)
            \<longrightarrow> find_icon fs finder iconName = Some [])
       \<and> ((\<exists>d \<in> set (searchPaths finder). 0 < size' d \<and> contains_match fs (path d) iconName)
            \<longrightarrow> (\<exists>k < length (searchPaths finder). \<exists>r.
                   0 < size' (searchPaths finder ! k)
                 \<and> contains_match fs (path (searchPaths finder ! k)) iconName
                 \<and> (\<forall>d' \<in> set (searchPaths finder).
                        contains_match fs (path d') iconName
                          \<longrightarrow> size' d' \<le> size' (searchPaths finder ! k))
                 \<and> (\<forall>j < k. contains_match fs (path (searchPaths finder ! j)) iconName
                          \<longrightarrow> size' (searchPaths finder ! j) < size' (searchPaths finder ! k))
                 \<and> find_icon fs finder iconName = Some r
                 \<and> List.find (file_exists fs)
                      (icon_candidates (path (searchPaths finder ! k)) iconName) = Some r
                 \<and> file_exists fs r \<and> r \<noteq> []))"
proof (intro conjI impI)
  let ?ps = "searchPaths finder"
  note by_size = find_icon_falls_through [OF assms]
  {
    assume "\<not> (\<exists>d \<in> set ?ps. 0 < size' d \<and> contains_match fs (path d) iconName)"
    from find_by_size_none [OF this] show "find_icon fs finder iconName = Some []"
      by (simp add: by_size)
  }
  {
    assume "\<exists>d \<in> set ?ps. 0 < size' d \<and> contains_match fs (path d) iconName"
    from find_by_size_some [OF this] obtain k where k: "k < length ?ps"
      "0 < size' (?ps ! k)"
      "contains_match fs (path (?ps ! k)) iconName"
      "\<forall>d' \<in> set ?ps. contains_match fs (path d') iconName \<longrightarrow> size' d' \<le> size' (?ps ! k)"
      "\<forall>j < k. contains_match fs (path (?ps ! j)) iconName \<longrightarrow> size' (?ps ! j) < size' (?ps ! k)"
      "iconPath (find_by_size fs ?ps iconName) = findExistingIcon fs (path (?ps ! k)) iconName"
      by blast
    let ?r = "findExistingIcon fs (path (?ps ! k)) iconName"
    note found = findExistingIcon_found [OF k(3)]
    from found(2) have ne: "?r \<noteq> []" by (rule candidates_nonempty)
    from k(6) have res: "find_icon fs finder iconName = Some ?r"
      by (simp add: by_size)
    from k(1-5) res found(1,3) ne
    show "\<exists>k < length ?ps. \<exists>r.
             0 < size' (?ps ! k)
           \<and> contains_match fs (path (?ps ! k)) iconName
           \<and> (\<forall>d' \<in> set ?ps. contains_match fs (path d') iconName
                    \<longrightarrow> size' d' \<le> size' (?ps ! k))
           \<and> (\<forall>j < k. contains_match fs (path (?ps ! j)) iconName
                    \<longrightarrow> size' (?ps ! j) < size' (?ps ! k))
           \<and> find_icon fs finder iconName = Some r
           \<and> List.find (file_exists fs) (icon_candidates (path (?ps ! k)) iconName) = Some r
           \<and> file_exists fs r \<and> r \<noteq> []"
      by (intro exI [of _ k] exI [of _ ?r]) simp
  }
qed

theorem find_icon_largest_positive_size_witness:
  "\<not> is_explicit ''foo''
   \<and> contains_match fs_two_themes ''/base/icons'' ''foo''
   \<and> find_icon fs_two_themes (new_IconFinder fs_two_themes ''/base'') ''foo''
       = Some ''/base/icons/hicolor/48x48/apps/foo.png''
   \<and> file_exists fs_two_themes ''/base/icons/hicolor/48x48/apps/foo.png''
   \<and> is_explicit ''/abs/icon.png''
   \<and> \<not> merge_cycles ''/opt/app'' ''/abs/icon.png''
   \<and> explicit_fails fs_fallthrough ''/opt/app'' ''/abs/icon.png''
   \<and> \<not> contains_match fs_fallthrough ''/opt/app/icons'' ''/abs/icon.png''
   \<and> find_icon fs_fallthrough (new_IconFinder fs_fallthrough ''/opt/app'') ''/abs/icon.png''
       = Some []"
proof -
  let ?F = "new_IconFinder fs_two_themes ''/base''"
  let ?G = "new_IconFinder fs_fallthrough ''/opt/app''"
  have ne: "\<not> is_explicit ''foo''" by (simp add: is_explicit_def)
  have ex: "\<exists>d \<in> set (searchPaths ?F). 0 < size' d \<and> contains_match fs_two_themes (path d) ''foo''"
    using two_themes_matches(3) by (simp add: new_IconFinder_def two_themes_paths)
  from find_icon_largest_positive_size [of "''foo''" ?F fs_two_themes] ne ex
  obtain k r where k: "k < length (searchPaths ?F)"
    "\<forall>d' \<in> set (searchPaths ?F). contains_match fs_two_themes (path d') ''foo''
        \<longrightarrow> size' d' \<le> size' (searchPaths ?F ! k)"
    "\<forall>j < k. contains_match fs_two_themes (path (searchPaths ?F ! j)) ''foo''
        \<longrightarrow> size' (searchPaths ?F ! j) < size' (searchPaths ?F ! k)"
    "find_icon fs_two_themes ?F ''foo'' = Some r"
    "List.find (file_exists fs_two_themes) (icon_candidates (path (searchPaths ?F ! k)) ''foo'')
       = Some r"
    "file_exists fs_two_themes r"
    by blast
  from k(2) two_themes_matches(1) have "48 \<le> size' (searchPaths ?F ! k)"
    by (simp add: new_IconFinder_def two_themes_paths)
  with k(1) have "k = 0 \<or> k = 1"
    by (auto simp: new_IconFinder_def two_themes_paths less_Suc_eq numeral_eq_Suc)
  with k(3) two_themes_matches(1) have k0: "k = 0"
    by (auto simp: new_IconFinder_def two_themes_paths)
  have "List.find (file_exists fs_two_themes)
          (icon_candidates ''/base/icons/hicolor/48x48/apps'' ''foo'')
        = Some ''/base/icons/hicolor/48x48/apps/foo.png''"
    by code_simp
  with k(5) k0 have r: "r = ''/base/icons/hicolor/48x48/apps/foo.png''"
    by (simp add: new_IconFinder_def two_themes_paths)
  have nm: "\<not> contains_match fs_fallthrough ''/opt/app/icons'' ''/abs/icon.png''"
    by code_simp
  then have "\<not> (\<exists>d \<in> set (searchPaths ?G). 0 < size' d
                  \<and> contains_match fs_fallthrough (path d) ''/abs/icon.png'')"
    by (simp add: new_IconFinder_def fallthrough_paths)
  with find_icon_largest_positive_size [of "''/abs/icon.png''" ?G fs_fallthrough]
    fallthrough_explicit(2,4)
  have "find_icon fs_fallthrough ?G ''/abs/icon.png'' = Some []"
    by (simp add: new_IconFinder_def)
  with ne two_themes_matches(3) k(4,6) r fallthrough_explicit(1,2,4) nm show ?thesis by simp
qed

text \<open>
  C5. For every base path the search paths are in order of non-increasing size, and for
  every size the entries of that size are the collected entries of that size in the order
  in which they were collected.
\<close>

theorem getSearchPaths_sorted_stable:
  "sorted_wrt (\<lambda>a b. size' a \<ge> size' b) (getSearchPaths fs base)
   \<and> (\<forall>s. filter (\<lambda>d. size' d = s) (getSearchPaths fs base)
          = filter (\<lambda>d. size' d = s) (collectedPaths fs base))"
  by (simp add: getSearchPaths_def list_sort_sorted list_sort_filter)

text \<open>
  C6, as stated, fails in two ways. For \<open>/abs/icon.png\<close>, which none of the three explicit
  resolutions finds, a search for the bare file name \<open>icon.png\<close> would find the file in the
  root icon directory, but \<open>find\<close> returns the empty result, because it asks every
  directory for the whole name. And for \<open>/opt/app/icon.png\<close>, which exists neither as given
  nor joined under the base path \<open>/opt/app\<close>, \<open>find\<close> does not fall through: it does not
  return.
\<close>

theorem find_icon_bare_filename_counterexample:
  "is_explicit ''/abs/icon.png''
   \<and> explicit_fails fs_fallthrough ''/opt/app'' ''/abs/icon.png''
   \<and> find_icon fs_fallthrough (new_IconFinder fs_fallthrough ''/opt/app'') ''/abs/icon.png''
       = Some []
   \<and> bare_filename ''/abs/icon.png'' = ''icon.png''
   \<and> iconPath (find_by_size fs_fallthrough
        (searchPaths (new_IconFinder fs_fallthrough ''/opt/app''))
        (bare_filename ''/abs/icon.png'')) = ''/opt/app/icons/icon.png''
   \<and> is_explicit ''/opt/app/icon.png''
   \<and> \<not> file_exists fs_fallthrough ''/opt/app/icon.png''
   \<and> \<not> file_exists fs_fallthrough (g_build_filename [''/opt/app'', ''/opt/app/icon.png''])
   \<and> find_icon fs_fallthrough (new_IconFinder fs_fallthrough ''/opt/app'') ''/opt/app/icon.png''
       = None"
proof -
  have "is_explicit ''/abs/icon.png''
   \<and> explicit_fails fs_fallthrough ''/opt/app'' ''/abs/icon.png''
   \<and> find_icon fs_fallthrough (new_IconFinder fs_fallthrough ''/opt/app'') ''/abs/icon.png''
       = Some []
   \<and> bare_filename ''/abs/icon.png'' = ''icon.png''
   \<and> iconPath (find_by_size fs_fallthrough
        (searchPaths (new_IconFinder fs_fallthrough ''/opt/app''))
        (bare_filename ''/abs/icon.png'')) = ''/opt/app/icons/icon.png''"
    by code_simp
  with fallthrough_cycle(1,3,4) fallthrough_hangs show ?thesis by blast
qed

text \<open>
  C6, amended. For an icon name that begins with a separator, when the three explicit
  resolutions all fail and the base path does not both begin with a separator and occur in
  the name (the inputs on which the merge heuristic does not return), \<open>find\<close> returns the
  result of the search by size for the icon name as it was given, not for its bare file
  name: whatever it returns is an existing candidate file, built from the whole name, of
  one of the search directories.
\<close>

theorem find_icon_explicit_fallthrough:
  assumes "is_explicit iconName"
    and "\<not> merge_cycles (basePath finder) iconName"
    and "explicit_fails fs (basePath finder) iconName"
  shows "find_icon fs finder iconName
           = Some (iconPath (find_by_size fs (searchPaths finder) iconName))
       \<and> (\<forall>r. find_icon fs finder iconName = Some r \<and> r \<noteq> []
             \<longrightarrow> (\<exists>d \<in> set (searchPaths finder).
                    r \<in> set (icon_candidates (path d) iconName) \<and> file_exists fs r))"
proof -
  let ?ps = "searchPaths finder"
  from assms(2,3) have h: "\<not> is_explicit iconName
      \<or> (\<not> merge_cycles (basePath finder) iconName
         \<and> explicit_fails fs (basePath finder) iconName)" by simp
  note by_size = find_icon_falls_through [OF h]
  have "\<exists>d \<in> set ?ps. r \<in> set (icon_candidates (path d) iconName) \<and> file_exists fs r"
    if r: "find_icon fs finder iconName = Some r" "r \<noteq> []" for r
  proof -
    from r by_size have ip: "iconPath (find_by_size fs ?ps iconName) = r" by simp
    with r(2) find_by_size_none [of ?ps fs iconName]
    have "\<exists>d \<in> set ?ps. 0 < size' d \<and> contains_match fs (path d) iconName"
      by auto
    from find_by_size_some [OF this] ip obtain k where k: "k < length ?ps"
      "contains_match fs (path (?ps ! k)) iconName"
      "r = findExistingIcon fs (path (?ps ! k)) iconName"
      by auto
    from findExistingIcon_found(2,3) [OF k(2)] k(1,3) show ?thesis
      by (intro bexI [of _ "?ps ! k"]) simp_all
  qed
  with by_size show ?thesis by blast
qed

theorem find_icon_explicit_fallthrough_witness:
  "is_explicit ''/abs/other.png''
   \<and> \<not> merge_cycles ''/opt/app'' ''/abs/other.png''
   \<and> merge_candidate ''/opt/app'' ''/abs/other.png'' = Some ''/opt/abs/other.png''
   \<and> explicit_fails fs_fallthrough ''/opt/app'' ''/abs/other.png''
   \<and> find_icon fs_fallthrough (new_IconFinder fs_fallthrough ''/opt/app'') ''/abs/other.png''
       = Some ''/opt/app/icons/abs/other.png''
   \<and> ''/opt/app/icons/abs/other.png''
       \<in> set (icon_candidates ''/opt/app/icons'' ''/abs/other.png'')
   \<and> file_exists fs_fallthrough ''/opt/app/icons/abs/other.png''"
proof -
  let ?G = "new_IconFinder fs_fallthrough ''/opt/app''"
  have c: "\<not> merge_cycles (basePath ?G) ''/abs/other.png''"
    by (simp add: new_IconFinder_def fallthrough_explicit)
  have f: "explicit_fails fs_fallthrough (basePath ?G) ''/abs/other.png''"
    by (simp add: new_IconFinder_def fallthrough_explicit)
  have run: "iconPath (find_by_size fs_fallthrough (searchPaths ?G) ''/abs/other.png'')
               = ''/opt/app/icons/abs/other.png''"
    by code_simp
  from find_icon_explicit_fallthrough [OF fallthrough_explicit(5) c f] run
  have res: "find_icon fs_fallthrough ?G ''/abs/other.png''
               = Some ''/opt/app/icons/abs/other.png''"
    and "\<exists>d \<in> set (searchPaths ?G).
           ''/opt/app/icons/abs/other.png'' \<in> set (icon_candidates (path d) ''/abs/other.png'')
         \<and> file_exists fs_fallthrough ''/opt/app/icons/abs/other.png''"
    by auto
  then have "''/opt/app/icons/abs/other.png''
               \<in> set (icon_candidates ''/opt/app/icons'' ''/abs/other.png'')
         \<and> file_exists fs_fallthrough ''/opt/app/icons/abs/other.png''"
    by (simp add: new_IconFinder_def fallthrough_paths)
  with fallthrough_explicit(5-8) res show ?thesis by simp
qed

text \<open>
  C10. A directory is handed to \<open>findExistingIcon\<close> exactly when its size is strictly
  greater than the size of the best match found in the directories before it. Hence, once
  a directory has been probed and contains a match, no later directory of the same size is
  probed; the best size never falls below that directory's size, and if the search ends at
  that size the icon returned is the one found in that directory. Among the directories of
  the winning (positive) size, the earliest one in list order that contains a match is the
  one whose icon is returned.
\<close>

theorem find_equal_size_first_wins:
  "(\<forall>j < length paths.
      j \<in> set (probed (find_by_size fs paths n))
        \<longleftrightarrow> size' (paths ! j)
              > best_size (find_loop fs n 0 \<lparr>best_size = 0, iconPath = [], probed = []\<rparr>
                             (take j paths)))
   \<and> (\<forall>i j. i < j \<and> j < length paths \<and> size' (paths ! i) = size' (paths ! j)
         \<and> i \<in> set (probed (find_by_size fs paths n))
         \<and> contains_match fs (path (paths ! i)) n
       \<longrightarrow> j \<notin> set (probed (find_by_size fs paths n))
         \<and> size' (paths ! i) \<le> best_size (find_by_size fs paths n)
         \<and> (best_size (find_by_size fs paths n) = size' (paths ! i)
              \<longrightarrow> iconPath (find_by_size fs paths n)
                    = findExistingIcon fs (path (paths ! i)) n))
   \<and> (\<forall>k < length paths.
         0 < size' (paths ! k) \<and> size' (paths ! k) = best_size (find_by_size fs paths n)
         \<and> contains_match fs (path (paths ! k)) n
         \<and> (\<forall>j < k. size' (paths ! j) = size' (paths ! k)
               \<longrightarrow> \<not> contains_match fs (path (paths ! j)) n)
       \<longrightarrow> iconPath (find_by_size fs paths n) = findExistingIcon fs (path (paths ! k)) n)"
proof (intro conjI allI impI)
  fix j assume "j < length paths"
  then show "j \<in> set (probed (find_by_size fs paths n))
        \<longleftrightarrow> size' (paths ! j)
              > best_size (find_loop fs n 0 \<lparr>best_size = 0, iconPath = [], probed = []\<rparr>
                             (take j paths))"
    by (rule probed_find_by_size)
next
  let ?st0 = "\<lparr>best_size = 0, iconPath = [], probed = []\<rparr>"
  fix i j
  assume a: "i < j \<and> j < length paths \<and> size' (paths ! i) = size' (paths ! j)
         \<and> i \<in> set (probed (find_by_size fs paths n))
         \<and> contains_match fs (path (paths ! i)) n"
  then have i: "i < length paths" by simp
  from a i have gt: "size' (paths ! i) > best_size (find_loop fs n 0 ?st0 (take i paths))"
    by (simp add: probed_find_by_size)
  from a have m: "contains_match fs (path (paths ! i)) n" by simp
  note hit = find_loop_after_hit [OF i gt m]
  from a have "Suc i \<le> j" by simp
  from find_loop_take_mono [OF this, of fs n ?st0 paths] hit(1) a
  have "\<not> size' (paths ! j) > best_size (find_loop fs n 0 ?st0 (take j paths))" by simp
  with a show "j \<notin> set (probed (find_by_size fs paths n))"
    by (simp add: probed_find_by_size)
  from i have "Suc i \<le> length paths" by simp
  from find_loop_take_mono [OF this, of fs n ?st0 paths] hit(1)
  show "size' (paths ! i) \<le> best_size (find_by_size fs paths n)"
    by (simp add: find_by_size_def)
  {
    assume e: "best_size (find_by_size fs paths n) = size' (paths ! i)"
    have split: "paths = take (Suc i) paths @ drop (Suc i) paths" by simp
    have "find_by_size fs paths n
            = find_loop fs n (0 + length (take (Suc i) paths))
                (find_loop fs n 0 ?st0 (take (Suc i) paths)) (drop (Suc i) paths)"
      unfolding find_by_size_def by (metis split find_loop_append)
    with e hit find_loop_same_size
    show "iconPath (find_by_size fs paths n) = findExistingIcon fs (path (paths ! i)) n"
      by metis
  }
next
  let ?st0 = "\<lparr>best_size = 0, iconPath = [], probed = []\<rparr>"
  let ?M = "\<lambda>d. contains_match fs (path d) n"
  fix k
  assume kl: "k < length paths"
    and a: "0 < size' (paths ! k) \<and> size' (paths ! k) = best_size (find_by_size fs paths n)
         \<and> contains_match fs (path (paths ! k)) n
         \<and> (\<forall>j < k. size' (paths ! j) = size' (paths ! k)
               \<longrightarrow> \<not> contains_match fs (path (paths ! j)) n)"
  from kl a have "\<exists>d \<in> set paths. size' d > best_size ?st0 \<and> ?M d"
    by (auto intro!: bexI [of _ "paths ! k"])
  from find_loop_winner [OF this, of 0] obtain w where w: "w < length paths" "?M (paths ! w)"
    "\<forall>j < w. ?M (paths ! j) \<longrightarrow> size' (paths ! j) < size' (paths ! w)"
    "best_size (find_loop fs n 0 ?st0 paths) = size' (paths ! w)"
    "iconPath (find_loop fs n 0 ?st0 paths) = findExistingIcon fs (path (paths ! w)) n"
    by blast
  from a w(4) have sz: "size' (paths ! k) = size' (paths ! w)" by (simp add: find_by_size_def)
  have "w = k"
  proof (rule ccontr)
    assume "w \<noteq> k"
    then consider "w < k" | "k < w" by linarith
    then show False
    proof cases
      case 1
      with a sz w(2) show False by auto
    next
      case 2
      with w(3) a sz show False by auto
    qed
  qed
  with w(5) show "iconPath (find_by_size fs paths n) = findExistingIcon fs (path (paths ! k)) n"
    by (simp add: find_by_size_def)
qed

theorem find_equal_size_first_wins_witness:
  "(0::nat) < 1 \<and> 1 < length (getSearchPaths fs_two_themes ''/base'')
   \<and> size' (getSearchPaths fs_two_themes ''/base'' ! 0)
       = size' (getSearchPaths fs_two_themes ''/base'' ! 1)
   \<and> 0 \<in> set (probed (find_by_size fs_two_themes (getSearchPaths fs_two_themes ''/base'') ''foo''))
   \<and> contains_match fs_two_themes (path (getSearchPaths fs_two_themes ''/base'' ! 0)) ''foo''
   \<and> contains_match fs_two_themes (path (getSearchPaths fs_two_themes ''/base'' ! 1)) ''foo''
   \<and> 1 \<notin> set (probed (find_by_size fs_two_themes (getSearchPaths fs_two_themes ''/base'') ''foo''))
   \<and> iconPath (find_by_size fs_two_themes (getSearchPaths fs_two_themes ''/base'') ''foo'')
       = findExistingIcon fs_two_themes ''/base/icons/hicolor/48x48/apps'' ''foo''"
proof -
  let ?ps = "getSearchPaths fs_two_themes ''/base''"
  let ?final = "find_by_size fs_two_themes ?ps ''foo''"
  have pre: "(0::nat) < 1 \<and> 1 < length ?ps \<and> size' (?ps ! 0) = size' (?ps ! 1)
      \<and> 0 \<in> set (probed ?final)
      \<and> contains_match fs_two_themes (path (?ps ! 0)) ''foo''"
    using two_themes_matches(1)
    by (simp add: two_themes_paths two_themes_run [unfolded two_themes_paths])
  have m1: "contains_match fs_two_themes (path (?ps ! 1)) ''foo''"
    using two_themes_matches(2) by (simp add: two_themes_paths)
  have sz: "best_size ?final = size' (?ps ! 0)"
    by (simp add: two_themes_paths two_themes_run [unfolded two_themes_paths])
  from find_equal_size_first_wins [of ?ps fs_two_themes "''foo''"] pre
  have post: "1 \<notin> set (probed ?final)
      \<and> (best_size ?final = size' (?ps ! 0)
           \<longrightarrow> iconPath ?final = findExistingIcon fs_two_themes (path (?ps ! 0)) ''foo'')"
    by blast
  with sz have "iconPath ?final = findExistingIcon fs_two_themes (path (?ps ! 0)) ''foo''"
    by simp
  then have "iconPath ?final
      = findExistingIcon fs_two_themes ''/base/icons/hicolor/48x48/apps'' ''foo''"
    by (simp add: two_themes_paths)
  with pre m1 post show ?thesis by simp
qed

end
